theory Spec2Isabelle
  imports Complex_Main
begin

section \<open>Python strings\<close>

text \<open>
  A Python \<open>str\<close> is modelled as a \<open>string\<close> holding its UTF-8 bytes.  Equality,
  concatenation, \<open>in\<close> (substring), \<open>endswith\<close>, \<open>replace\<close> and \<open>join\<close> on ASCII
  patterns agree on bytes and on code points.  The character classes
  (\<open>isdigit\<close>, white space, \<open>lower\<close>) and the number parsers \<open>int\<close> and \<open>float\<close> are
  modelled on ASCII: a byte above 127 is neither a digit nor white space and is its own
  lower case.  No character outside ASCII has \<open>n\<close>, \<open>a\<close>, \<open>e\<close> or \<open>+\<close> in its lower
  case, so the tests against \<open>nan\<close> and \<open>e+\<close> are exact.
\<close>

definition is_digit_char :: "char \<Rightarrow> bool" where
  "is_digit_char c = (c \<in> set ''0123456789'')"

definition digit_val :: "char \<Rightarrow> nat" where
  "digit_val c = of_char c - 48"

definition digit_char :: "nat \<Rightarrow> char" where
  "digit_char d = ''0123456789'' ! d"

text \<open>\<open>s.isdigit()\<close>: every character is a digit and there is at least one.\<close>

definition isdigit :: "string \<Rightarrow> bool" where
  "isdigit s = (s \<noteq> [] \<and> list_all is_digit_char s)"

text \<open>\<open>s.replace(c, '', 1)\<close>: the first occurrence of the character is removed.\<close>

fun replace_first :: "char \<Rightarrow> string \<Rightarrow> string" where
  "replace_first c [] = []"
| "replace_first c (x # xs) = (if x = c then xs else x # replace_first c xs)"

text \<open>\<open>s.endswith(suffix)\<close> and \<open>sub in s\<close>.\<close>

definition endswith :: "string \<Rightarrow> string \<Rightarrow> bool" where
  "endswith s suffix = (length suffix \<le> length s \<and> drop (length s - length suffix) s = suffix)"

fun startswith :: "string \<Rightarrow> string \<Rightarrow> bool" where
  "startswith s [] = True"
| "startswith [] (p # ps) = False"
| "startswith (x # xs) (p # ps) = (x = p \<and> startswith xs ps)"

fun contains :: "string \<Rightarrow> string \<Rightarrow> bool" where
  "contains [] sub = (sub = [])"
| "contains (x # xs) sub = (startswith (x # xs) sub \<or> contains xs sub)"

text \<open>\<open>s.lower()\<close> on ASCII letters.\<close>

definition lower_char :: "char \<Rightarrow> char" where
  "lower_char c =
     (case map_of (zip ''ABCDEFGHIJKLMNOPQRSTUVWXYZ'' ''abcdefghijklmnopqrstuvwxyz'') c of
        Some l \<Rightarrow> l
      | None \<Rightarrow> c)"

definition lower :: "string \<Rightarrow> string" where
  "lower s = map lower_char s"

text \<open>
  \<open>s.strip()\<close> removes the characters for which \<open>str.isspace\<close> holds from both ends
  (tab, line feed, vertical tab, form feed, carriage return, the four separators
  28 to 31, and space); \<open>float\<close> and \<open>int\<close> skip the white space of C (no separators).
\<close>

definition is_space_char :: "char \<Rightarrow> bool" where
  "is_space_char c = (of_char c \<in> {9, 10, 11, 12, 13, 28, 29, 30, 31, 32 :: nat})"

definition is_c_space :: "char \<Rightarrow> bool" where
  "is_c_space c = (of_char c \<in> {9, 10, 11, 12, 13, 32 :: nat})"

definition strip_by :: "(char \<Rightarrow> bool) \<Rightarrow> string \<Rightarrow> string" where
  "strip_by p s = rev (dropWhile p (rev (dropWhile p s)))"

definition strip :: "string \<Rightarrow> string" where
  "strip s = strip_by is_space_char s"

text \<open>\<open>sep.join(parts)\<close>.\<close>

fun join :: "string \<Rightarrow> string list \<Rightarrow> string" where
  "join sep [] = []"
| "join sep [x] = x"
| "join sep (x # y # ys) = x @ sep @ join sep (y # ys)"

text \<open>\<open>str(n)\<close> for an integer: decimal digits, a minus sign when negative.\<close>

fun str_nat :: "nat \<Rightarrow> string" where
  "str_nat n = (if n < 10 then [digit_char n] else str_nat (n div 10) @ [digit_char (n mod 10)])"

declare str_nat.simps [simp del]

definition str_int :: "int \<Rightarrow> string" where
  "str_int i = (if i < 0 then CHR ''-'' # str_nat (nat (- i)) else str_nat (nat i))"

text \<open>\<open>str(n).zfill(w)\<close>, as \<open>strftime\<close> pads the fields of a date.\<close>

definition zfill :: "nat \<Rightarrow> string \<Rightarrow> string" where
  "zfill w s = replicate (w - length s) CHR ''0'' @ s"

section \<open>Python numbers\<close>

text \<open>
  A Python \<open>float\<close> is an IEEE 754 double: a finite double is modelled by the rational it
  denotes (the sign of zero is not kept), beside the infinities and not-a-number.
\<close>

datatype pyfloat = Fin rat | PosInf | NegInf | NaN

fun bit_length :: "nat \<Rightarrow> nat" where
  "bit_length n = (if n = 0 then 0 else Suc (bit_length (n div 2)))"

declare bit_length.simps [simp del]

text \<open>The integer nearest to \<open>n / d\<close>, a tie going to the even one.\<close>

definition round_half_even :: "nat \<Rightarrow> nat \<Rightarrow> nat" where
  "round_half_even n d =
     (let q = n div d; r = n mod d
      in if 2 * r < d then q
         else if d < 2 * r then q + 1
         else if even q then q else q + 1)"

text \<open>
  The double nearest to the positive rational \<open>n / d\<close> (round to nearest, ties to even):
  \<open>e\<close> is the binary exponent of \<open>n / d\<close>, \<open>p\<close> the exponent of the last place of a
  double of that size (at least that of the subnormals), \<open>m\<close> the significand.  A result of
  \<open>2 ^ 1024\<close> or more overflows to infinity.
\<close>

definition round_double :: "nat \<Rightarrow> nat \<Rightarrow> pyfloat" where
  "round_double n d =
     (if n = 0 then Fin 0
      else
        let k = int (bit_length n) - int (bit_length d);
            e = (if d * 2 ^ nat k \<le> n * 2 ^ nat (- k) then k else k - 1);
            p = max (e - 52) (- 1074);
            m = round_half_even (n * 2 ^ nat (- p)) (d * 2 ^ nat p)
        in if 1024 \<le> e \<or> (e = 1023 \<and> m = 2 ^ 53) then PosInf
           else Fin (of_nat (m * 2 ^ nat p) / of_nat (2 ^ nat (- p))))"

definition float_neg :: "pyfloat \<Rightarrow> pyfloat" where
  "float_neg f = (case f of Fin q \<Rightarrow> Fin (- q) | PosInf \<Rightarrow> NegInf | NegInf \<Rightarrow> PosInf | NaN \<Rightarrow> NaN)"

text \<open>The double nearest to a rational of either sign.\<close>

definition round_double_rat :: "rat \<Rightarrow> pyfloat" where
  "round_double_rat q =
     (let (a, b) = quotient_of q
      in if a < 0 then float_neg (round_double (nat (- a)) (nat b)) else round_double (nat a) (nat b))"

text \<open>\<open>f > r\<close> for a double \<open>f\<close> and an exact value \<open>r\<close>.\<close>

definition float_gt :: "pyfloat \<Rightarrow> rat \<Rightarrow> bool" where
  "float_gt f r = (case f of Fin q \<Rightarrow> r < q | PosInf \<Rightarrow> True | NegInf \<Rightarrow> False | NaN \<Rightarrow> False)"

text \<open>
  Underscores in a numeric literal: one underscore is allowed between two digits, nowhere
  else.  \<open>prev\<close> is the character before the rest.
\<close>

fun drop_underscores :: "char \<Rightarrow> string \<Rightarrow> string option" where
  "drop_underscores prev [] = (if prev = CHR ''_'' then None else Some [])"
| "drop_underscores prev (c # cs) =
     (if c = CHR ''_'' then (if is_digit_char prev then drop_underscores c cs else None)
      else if prev = CHR ''_'' \<and> \<not> is_digit_char c then None
      else map_option ((#) c) (drop_underscores c cs))"

definition nat_of_digits :: "string \<Rightarrow> nat" where
  "nat_of_digits ds = foldl (\<lambda>a c. 10 * a + digit_val c) 0 ds"

text \<open>An optional sign: whether it is a minus, and the rest.\<close>

fun split_sign :: "string \<Rightarrow> bool \<times> string" where
  "split_sign [] = (False, [])"
| "split_sign (c # cs) =
     (if c = CHR ''-'' then (True, cs) else if c = CHR ''+'' then (False, cs) else (False, c # cs))"

text \<open>
  A decimal literal without sign: digits, an optional point and digits (one digit at least
  in all), an optional exponent \<open>e\<close> or \<open>E\<close> with optional sign and one digit at least.
  The result \<open>(n, x)\<close> stands for \<open>n * 10 ^ x\<close>.
\<close>

definition parse_decimal :: "string \<Rightarrow> (nat \<times> int) option" where
  "parse_decimal s =
     (let ip = takeWhile is_digit_char s;
          r1 = dropWhile is_digit_char s;
          (fp, r2) = (case r1 of
                        [] \<Rightarrow> ([], [])
                      | c # t \<Rightarrow> if c = CHR ''.''
                                 then (takeWhile is_digit_char t, dropWhile is_digit_char t)
                                 else ([], r1));
          n = nat_of_digits (ip @ fp)
      in if ip = [] \<and> fp = [] then None
         else case r2 of
                [] \<Rightarrow> Some (n, - int (length fp))
              | c # t \<Rightarrow>
                  if c = CHR ''e'' \<or> c = CHR ''E''
                  then (let (neg, ds) = split_sign t
                        in if isdigit ds
                           then Some (n, (if neg then - int (nat_of_digits ds) else int (nat_of_digits ds))
                                         - int (length fp))
                           else None)
                  else None)"

text \<open>
  \<open>float(s)\<close> for a string: white space at both ends is skipped, underscores removed, then an
  optional sign and \<open>inf\<close>, \<open>infinity\<close>, \<open>nan\<close> (in any case) or a decimal literal, rounded
  to the nearest double.  \<open>None\<close> is the \<open>ValueError\<close>.
\<close>

definition py_float :: "string \<Rightarrow> pyfloat option" where
  "py_float s =
     (case drop_underscores (CHR 0x00) (strip_by is_c_space s) of
        None \<Rightarrow> None
      | Some u \<Rightarrow>
          let (neg, v) = split_sign u;
              sg = (\<lambda>f. if neg then float_neg f else f)
          in if lower v = ''inf'' \<or> lower v = ''infinity'' then Some (sg PosInf)
             else if lower v = ''nan'' then Some NaN
             else case parse_decimal v of
                    None \<Rightarrow> None
                  | Some (n, x) \<Rightarrow>
                      Some (sg (if 0 \<le> x then round_double (n * 10 ^ nat x) 1
                                else round_double n (10 ^ nat (- x)))))"

text \<open>
  \<open>int(s)\<close> for a string in base ten: white space skipped, an optional sign, digits with
  single underscores between them.  \<open>None\<close> is the \<open>ValueError\<close>.  (The limit on the
  number of digits that newer interpreters put on this conversion is not modelled.)
\<close>

definition py_int :: "string \<Rightarrow> int option" where
  "py_int s =
     (let (neg, v) = split_sign (strip_by is_space_char s)
      in case drop_underscores (CHR 0x00) v of
           None \<Rightarrow> None
         | Some ds \<Rightarrow>
             if isdigit ds
             then Some (if neg then - int (nat_of_digits ds) else int (nat_of_digits ds))
             else None)"

text \<open>\<open>int(f)\<close> for a float truncates toward zero; it raises on an infinity or a NaN.\<close>

definition trunc_rat :: "rat \<Rightarrow> int" where
  "trunc_rat q = (if 0 \<le> q then \<lfloor>q\<rfloor> else - \<lfloor>- q\<rfloor>)"

definition int_of_float :: "pyfloat \<Rightarrow> int option" where
  "int_of_float f = (case f of Fin q \<Rightarrow> Some (trunc_rat q) | _ \<Rightarrow> None)"

section \<open>Dates\<close>

text \<open>
  \<open>timedelta(days=f)\<close> for a float, as the interpreter computes it: the whole days are
  exact; the fraction of a day is multiplied by the microseconds of a day in double
  arithmetic, its whole part is added and what is left is rounded to a whole microsecond
  (a tie to the even total).  The result is the total of microseconds; \<open>None\<close> is the
  \<open>OverflowError\<close> or \<open>ValueError\<close> (an infinity, a NaN, more than 999999999 days).
\<close>

definition us_per_day :: int where
  "us_per_day = 86400000000"

text \<open>C's \<open>round\<close>: the nearest integer, a tie away from zero.\<close>

definition round_half_away :: "rat \<Rightarrow> int" where
  "round_half_away q = (if 0 \<le> q then \<lfloor>q + 1 / 2\<rfloor> else - \<lfloor>- q + 1 / 2\<rfloor>)"

definition microseconds_to_delta :: "int \<Rightarrow> int option" where
  "microseconds_to_delta us =
     (if \<bar>us div us_per_day\<bar> \<le> 999999999 then Some us else None)"

definition timedelta_days :: "pyfloat \<Rightarrow> int option" where
  "timedelta_days f =
     (case f of
        Fin q \<Rightarrow>
          let intpart = trunc_rat q;
              fracpart = q - of_int intpart;
              x = intpart * us_per_day
          in if fracpart = 0 then microseconds_to_delta x
             else (case round_double_rat (of_int us_per_day * fracpart) of
                     Fin dnum \<Rightarrow>
                       let intpart2 = trunc_rat dnum;
                           leftover = dnum - of_int intpart2;
                           y = x + intpart2;
                           whole = round_half_away leftover;
                           x_is_odd = y mod 2;
                           whole_us = (if \<bar>of_int whole - leftover\<bar> = 1 / 2
                                       then 2 * round_half_away ((leftover + of_int x_is_odd) * (1 / 2))
                                            - x_is_odd
                                       else whole)
                       in microseconds_to_delta (if leftover = 0 then y else y + whole_us)
                   | _ \<Rightarrow> None)
      | _ \<Rightarrow> None)"

text \<open>
  The calendar of \<open>datetime\<close> is the proleptic Gregorian one, day 1 being 0001-01-01 and
  the last day, 9999-12-31, being day 3652059.  \<open>ord2ymd\<close> gives year, month and day of
  a day number.
\<close>

definition days_before_month :: "nat \<Rightarrow> nat" where
  "days_before_month m = [0, 0, 31, 59, 90, 120, 151, 181, 212, 243, 273, 304, 334] ! m"

definition days_in_month :: "nat \<Rightarrow> nat" where
  "days_in_month m = [0, 31, 28, 31, 30, 31, 30, 31, 31, 30, 31, 30, 31] ! m"

definition ord2ymd :: "nat \<Rightarrow> nat \<times> nat \<times> nat" where
  "ord2ymd ordinal =
     (let n = ordinal - 1;
          n400 = n div 146097; n = n mod 146097;
          n100 = n div 36524; n = n mod 36524;
          n4 = n div 1461; n = n mod 1461;
          n1 = n div 365; n = n mod 365;
          year = n400 * 400 + 1 + n100 * 100 + n4 * 4 + n1
      in if n1 = 4 \<or> n100 = 4 then (year - 1, 12, 31)
         else
           let leapyear = (n1 = 3 \<and> (n4 \<noteq> 24 \<or> n100 = 3));
               month = (n + 50) div 32;
               preceding = days_before_month month + (if 2 < month \<and> leapyear then 1 else 0)
           in if n < preceding
              then (let month' = month - 1;
                        preceding' = preceding
                                     - (days_in_month month' + (if month' = 2 \<and> leapyear then 1 else 0))
                    in (year, month', n - preceding' + 1))
              else (year, month, n - preceding + 1))"

definition max_ordinal :: int where
  "max_ordinal = 3652059"

text \<open>The day number of 1899-12-30, the day zero of the spreadsheet's serial dates.\<close>

definition excel_epoch_ordinal :: int where
  "excel_epoch_ordinal = 693594"

text \<open>\<open>dt.strftime('%Y-%m-%d')\<close>.\<close>

definition strftime_ymd :: "nat \<times> nat \<times> nat \<Rightarrow> string" where
  "strftime_ymd ymd =
     (case ymd of (y, m, d) \<Rightarrow>
        zfill 4 (str_nat y) @ ''-'' @ zfill 2 (str_nat m) @ ''-'' @ zfill 2 (str_nat d))"

text \<open>
  \<open>(datetime(1899, 12, 30) + timedelta(days=f)).strftime('%Y-%m-%d')\<close>: the base is at
  midnight, so the date of the sum is the base's day number plus the whole days of the
  delta; a day outside 1..\<open>max_ordinal\<close> is the \<open>OverflowError\<close>, here \<open>None\<close>.
\<close>

definition excel_serial_date :: "pyfloat \<Rightarrow> string option" where
  "excel_serial_date f =
     (case timedelta_days f of
        None \<Rightarrow> None
      | Some us \<Rightarrow>
          let ordinal = excel_epoch_ordinal + us div us_per_day
          in if 1 \<le> ordinal \<and> ordinal \<le> max_ordinal
             then Some (strftime_ymd (ord2ymd (nat ordinal)))
             else None)"

section \<open>The cell normalizer\<close>

text \<open>
  \<open>load_data\<close> reads the sheet with \<open>dtype=str\<close>, so a cell of the frame is a string
  or the missing marker (NaN).  The branches of \<open>format_excel_date\<close> for \<open>datetime\<close>
  objects and for numbers are therefore never taken from \<open>process_data\<close> and have no
  counterpart in the cell type.
\<close>

datatype cell = Missing | Text string

text \<open>
  \<open>pd.to_datetime(val_str, errors='coerce')\<close> followed by \<open>strftime('%Y-%m-%d')\<close> is the
  general date parser of the pandas library.  It is a parameter \<open>to_datetime\<close> of
  everything below: \<open>Some d\<close> is the formatted date, \<open>None\<close> stands for \<open>NaT\<close> or an
  exception.
\<close>

type_synonym date_parser = "string \<Rightarrow> string option"

text \<open>\<open>val_str.replace('.', '', 1).isdigit()\<close>: digits with at most one point.\<close>

definition numeric_looking :: "string \<Rightarrow> bool" where
  "numeric_looking s = isdigit (replace_first CHR ''.'' s)"

text \<open>
  The \<open>try\<close> block of lines 54 to 62: the date of a numeric string above the threshold;
  \<open>None\<close> when the block falls through (not numeric, not above 10000, or an exception).
\<close>

definition serial_string_date :: "string \<Rightarrow> string option" where
  "serial_string_date val_str =
     (if numeric_looking val_str
      then (case py_float val_str of
              None \<Rightarrow> None
            | Some float_val \<Rightarrow>
                if float_gt float_val 10000 then excel_serial_date float_val else None)
      else None)"

definition format_excel_date :: "date_parser \<Rightarrow> cell \<Rightarrow> string" where
  "format_excel_date to_datetime v =
     (case v of
        Missing \<Rightarrow> []
      | Text s \<Rightarrow>
          if s = [] \<or> lower s = ''nan'' then []
          else
            let val_str = strip s
            in case serial_string_date val_str of
                 Some d \<Rightarrow> d
               | None \<Rightarrow>
                   if \<not> isdigit val_str
                   then (case to_datetime val_str of Some d \<Rightarrow> d | None \<Rightarrow> val_str)
                   else val_str)"

text \<open>The keywords that flag a date column (line 339): date, time, \<open>Date\<close>, \<open>Time\<close>.\<close>

definition kw_date :: string where
  "kw_date = [CHR 0xE6, CHR 0x97, CHR 0xA5, CHR 0xE6, CHR 0x9C, CHR 0x9F]"

definition kw_time :: string where
  "kw_time = [CHR 0xE6, CHR 0x97, CHR 0xB6, CHR 0xE9, CHR 0x97, CHR 0xB4]"

definition date_keywords :: "string list" where
  "date_keywords = [kw_date, kw_time, ''Date'', ''Time'']"

definition is_date_column :: "string \<Rightarrow> bool" where
  "is_date_column col = list_ex (\<lambda>keyword. contains col keyword) date_keywords"

text \<open>\<open>astype(str)\<close>: the missing marker becomes the text \<open>nan\<close>.\<close>

definition astype_str :: "cell \<Rightarrow> string" where
  "astype_str v = (case v of Missing \<Rightarrow> ''nan'' | Text s \<Rightarrow> s)"

text \<open>The lambda of line 350.\<close>

definition trim_nan :: "string \<Rightarrow> string" where
  "trim_nan x = (if x = ''nan'' then [] else if endswith x ''.0'' then take (length x - 2) x else x)"

text \<open>\<open>fix_sci\<close> of lines 355 to 361.\<close>

definition fix_sci :: "string \<Rightarrow> string" where
  "fix_sci val =
     (if contains (lower val) ''e+''
      then (case py_float val of
              None \<Rightarrow> val
            | Some f \<Rightarrow> (case int_of_float f of None \<Rightarrow> val | Some i \<Rightarrow> str_int i))
      else val)"

text \<open>The three passes of the loop over the columns (lines 341 to 362), for one cell.\<close>

definition normalize_cell :: "date_parser \<Rightarrow> string \<Rightarrow> cell \<Rightarrow> string" where
  "normalize_cell to_datetime col v =
     (let v1 = (if is_date_column col then Text (format_excel_date to_datetime v) else v);
          v2 = trim_nan (astype_str v1)
      in fix_sci v2)"

section \<open>The table and the key/detail partition\<close>

text \<open>
  The frame holds the column labels in table order and the rows; a row gives the cell
  under each label (\<open>row[col]\<close>).  The labels of a frame are distinct (the reader renames
  repeated headers), and \<open>process_data\<close> looks a row up only under labels of the frame.
\<close>

record dataframe =
  columns :: "string list"
  rows :: "(string \<Rightarrow> cell) list"

definition col_date :: string where
  "col_date = [CHR 0xE6, CHR 0x97, CHR 0xA5, CHR 0xE6, CHR 0x9C, CHR 0x9F]"

definition col_out_date :: string where
  "col_out_date = [CHR 0xE6, CHR 0xB8, CHR 0x85, CHR 0xE7, CHR 0xBE, CHR 0x8E, CHR 0xE5, CHR 0x87,
                   CHR 0xBA, CHR 0xE5, CHR 0xBA, CHR 0x93, CHR 0xE6, CHR 0x97, CHR 0xA5, CHR 0xE6,
                   CHR 0x9C, CHR 0x9F]"

definition col_waybill :: string where
  "col_waybill = [CHR 0xE8, CHR 0xBF, CHR 0x90, CHR 0xE5, CHR 0x8D, CHR 0x95, CHR 0xE5, CHR 0x8F,
                  CHR 0xB7, CHR 0xE7, CHR 0xA0, CHR 0x81]"

definition col_order :: string where
  "col_order = [CHR 0xE6, CHR 0xB8, CHR 0x85, CHR 0xE7, CHR 0xBE, CHR 0x8E, CHR 0xE7, CHR 0xB3,
                CHR 0xBB, CHR 0xE7, CHR 0xBB, CHR 0x9F, CHR 0xE8, CHR 0xAE, CHR 0xA2, CHR 0xE5,
                CHR 0x8D, CHR 0x95, CHR 0xE5, CHR 0x8F, CHR 0xB7]"

definition col_from :: string where
  "col_from = [CHR 0xE5, CHR 0xAF, CHR 0x84, CHR 0xE4, CHR 0xBB, CHR 0xB6, CHR 0xE5, CHR 0x9C,
               CHR 0xB0, CHR 0xE5, CHR 0x8C, CHR 0xBA]"

definition col_to :: string where
  "col_to = [CHR 0xE5, CHR 0x88, CHR 0xB0, CHR 0xE4, CHR 0xBB, CHR 0xB6, CHR 0xE5, CHR 0x9C,
             CHR 0xB0, CHR 0xE5, CHR 0x8C, CHR 0xBA]"

definition col_company :: string where
  "col_company = [CHR 0xE5, CHR 0xAF, CHR 0xB9, CHR 0xE6, CHR 0x96, CHR 0xB9, CHR 0xE5, CHR 0x85,
                  CHR 0xAC, CHR 0xE5, CHR 0x8F, CHR 0xB8, CHR 0xE5, CHR 0x90, CHR 0x8D, CHR 0xE7,
                  CHR 0xA7, CHR 0xB0]"

definition col_boxes :: string where
  "col_boxes = [CHR 0xE7, CHR 0xAE, CHR 0xB1, CHR 0xE6, CHR 0x95, CHR 0xB0]"

definition col_weight :: string where
  "col_weight = [CHR 0xE8, CHR 0xAE, CHR 0xA1, CHR 0xE8, CHR 0xB4, CHR 0xB9, CHR 0xE9, CHR 0x87,
                 CHR 0x8D, CHR 0xE9, CHR 0x87, CHR 0x8F]"

definition col_product :: string where
  "col_product = [CHR 0xE4, CHR 0xBA, CHR 0xA7, CHR 0xE5, CHR 0x93, CHR 0x81, CHR 0xE7, CHR 0xB1,
                  CHR 0xBB, CHR 0xE5, CHR 0x9E, CHR 0x8B]"

text \<open>The fee column as the sheet names it (with the unit in brackets) and as it is exported.\<close>

definition col_fee_yuan :: string where
  "col_fee_yuan = [CHR 0xE8, CHR 0xB4, CHR 0xB9, CHR 0xE7, CHR 0x94, CHR 0xA8, CHR 0x28, CHR 0xE5,
                   CHR 0x85, CHR 0x83, CHR 0x29]"

definition col_fee :: string where
  "col_fee = [CHR 0xE8, CHR 0xB4, CHR 0xB9, CHR 0xE7, CHR 0x94, CHR 0xA8]"

definition col_discount :: string where
  "col_discount = [CHR 0xE5, CHR 0x8D, CHR 0x95, CHR 0xE7, CHR 0xA5, CHR 0xA8, CHR 0xE6, CHR 0x8A,
                   CHR 0x98, CHR 0xE6, CHR 0x89, CHR 0xA3]"

definition col_payable :: string where
  "col_payable = [CHR 0xE5, CHR 0xBA, CHR 0x94, CHR 0xE4, CHR 0xBB, CHR 0x98, CHR 0xE9, CHR 0x87,
                  CHR 0x91, CHR 0xE9, CHR 0xA2, CHR 0x9D]"

definition col_seq :: string where
  "col_seq = [CHR 0xE5, CHR 0xBA, CHR 0x8F, CHR 0xE5, CHR 0x8F, CHR 0xB7]"

definition STANDARD_KEY_COLUMNS :: "string list" where
  "STANDARD_KEY_COLUMNS =
     [col_date, col_out_date, col_waybill, col_order, col_from, col_to, col_company,
      col_boxes, col_weight, col_product]"

definition COLUMN_MAPPING :: "(string \<times> string) list" where
  "COLUMN_MAPPING = [(col_fee_yuan, col_fee)]"

text \<open>\<open>COLUMN_MAPPING.get(col, col)\<close>.\<close>

definition output_name :: "string \<Rightarrow> string" where
  "output_name col = (case map_of COLUMN_MAPPING col of Some new \<Rightarrow> new | None \<Rightarrow> col)"

text \<open>
  Lines 291 to 299: the check boxes stand in table order beside the columns; a checked
  column is selected, an unchecked one is a detail column.
\<close>

definition selected_columns :: "string list \<Rightarrow> bool list \<Rightarrow> string list" where
  "selected_columns cols checks = map fst (filter (\<lambda>p. snd p) (zip cols checks))"

definition detail_columns :: "string list \<Rightarrow> bool list \<Rightarrow> string list" where
  "detail_columns cols checks = map fst (filter (\<lambda>p. \<not> snd p) (zip cols checks))"

text \<open>Lines 302 to 312: the standard columns first, in their own order, then the others.\<close>

definition key_columns :: "string list \<Rightarrow> string list" where
  "key_columns selected =
     (let std = filter (\<lambda>std_col. std_col \<in> set selected) STANDARD_KEY_COLUMNS;
          remaining_keys = filter (\<lambda>col. col \<notin> set std) selected
      in std @ remaining_keys)"

section \<open>The grouping pass\<close>

text \<open>A value of a detail record: the canonical string, or the number it was coerced to.\<close>

datatype pyval = PStr string | PInt int | PFloat pyfloat

definition monetary_columns :: "string list" where
  "monetary_columns = [col_fee, col_discount, col_payable]"

text \<open>
  Lines 390 to 406.  The value is a string in every cell of the processed frame, so the
  branch for values that are numbers already is not taken.  An exception leaves
  \<open>final_val\<close> as it was last assigned.
\<close>

definition coerce_detail :: "string \<Rightarrow> string \<Rightarrow> pyval" where
  "coerce_detail output_col_name val =
     (if numeric_looking val
      then (if CHR ''.'' \<in> set val
            then (case py_float val of Some f \<Rightarrow> PFloat f | None \<Rightarrow> PStr val)
            else (case py_int val of
                    None \<Rightarrow> PStr val
                  | Some i \<Rightarrow>
                      if output_col_name \<in> set monetary_columns
                      then (case py_float val of Some f \<Rightarrow> PFloat f | None \<Rightarrow> PInt i)
                      else PInt i))
      else PStr val)"

text \<open>
  A Python \<open>dict\<close> keeps its keys in the order of their first insertion: it is an
  association list with distinct keys.  \<open>d[k] = v\<close> replaces the value in place or adds
  the key at the end.
\<close>

fun dict_set :: "'k \<Rightarrow> 'v \<Rightarrow> ('k \<times> 'v) list \<Rightarrow> ('k \<times> 'v) list" where
  "dict_set k v [] = [(k, v)]"
| "dict_set k v ((k', v') # d) = (if k' = k then (k, v) # d else (k', v') # dict_set k v d)"

text \<open>\<open>d.get(k, default)\<close>.\<close>

definition dict_get :: "('k \<times> 'v) list \<Rightarrow> 'k \<Rightarrow> 'v \<Rightarrow> 'v" where
  "dict_get d k dflt = (case map_of d k of Some v \<Rightarrow> v | None \<Rightarrow> dflt)"

text \<open>\<open>if k not in d: d[k] = []\<close> and \<open>d[k].append(item)\<close> for a key that is present.\<close>

definition dict_ensure :: "'k \<Rightarrow> ('k \<times> 'v list) list \<Rightarrow> ('k \<times> 'v list) list" where
  "dict_ensure k d = (if k \<in> set (map fst d) then d else d @ [(k, [])])"

definition dict_append :: "'k \<Rightarrow> 'v \<Rightarrow> ('k \<times> 'v list) list \<Rightarrow> ('k \<times> 'v list) list" where
  "dict_append k item d = map (\<lambda>(k', items). if k' = k then (k', items @ [item]) else (k', items)) d"

type_synonym detail_item = "(string \<times> pyval) list"

text \<open>Lines 383 to 408: the detail record of a row.\<close>

definition build_detail_item :: "string list \<Rightarrow> (string \<Rightarrow> string) \<Rightarrow> detail_item" where
  "build_detail_item detail_cols row =
     foldl (\<lambda>detail_item col.
              dict_set (output_name col) (coerce_detail (output_name col) (row col)) detail_item)
           [] detail_cols"

definition key_tuple :: "string list \<Rightarrow> (string \<Rightarrow> string) \<Rightarrow> string list" where
  "key_tuple key_cols row = map row key_cols"

definition key_str :: "string list \<Rightarrow> (string \<Rightarrow> string) \<Rightarrow> string" where
  "key_str key_cols row = join ''_'' (map row key_cols)"

type_synonym groups = "(string list \<times> detail_item list) list"
type_synonym json_data = "(string \<times> detail_item list) list"

text \<open>The body of the loop over the rows (lines 369 to 411) and the loop.\<close>

definition group_row ::
  "string list \<Rightarrow> string list \<Rightarrow> groups \<times> json_data \<Rightarrow> (string \<Rightarrow> string) \<Rightarrow> groups \<times> json_data"
where
  "group_row key_cols detail_cols st row =
     (let groups = dict_ensure (key_tuple key_cols row) (fst st);
          json_data_dict = dict_ensure (key_str key_cols row) (snd st);
          detail_item = build_detail_item detail_cols row
      in (dict_append (key_tuple key_cols row) detail_item groups,
          dict_append (key_str key_cols row) detail_item json_data_dict))"

definition group_rows ::
  "string list \<Rightarrow> string list \<Rightarrow> (string \<Rightarrow> string) list \<Rightarrow> groups \<times> json_data"
where
  "group_rows key_cols detail_cols processed = foldl (group_row key_cols detail_cols) ([], []) processed"

section \<open>The tabular export\<close>

text \<open>
  The sheet as \<open>process_data\<close> fills it: the header, the body rows from row 2 on (the
  sequence number, the key values, the detail values, an empty string for a name the
  record lacks), the merged regions as
  (first row, last row, column) and the cells that are centred as (row, column).
\<close>

datatype xcell = XSeq nat | XStr string | XVal pyval

record sheet =
  header :: "string list"
  body :: "xcell list list"
  merges :: "(nat \<times> nat \<times> nat) list"
  centred :: "(nat \<times> nat) list"

text \<open>Lines 429 to 442: one row of the sheet for a detail record of the group.\<close>

definition sheet_row :: "nat \<Rightarrow> string list \<Rightarrow> string list \<Rightarrow> detail_item \<Rightarrow> xcell list" where
  "sheet_row group_index key_tup output_detail_headers item =
     XSeq group_index # map XStr key_tup
     @ map (\<lambda>col_name. dict_get (map (\<lambda>(k, v). (k, XVal v)) item) col_name (XStr [])) output_detail_headers"

text \<open>
  Lines 426 to 464: the rows of one group, then the merges and the centring.  The state is
  the sheet, the next row and the index of the group.
\<close>

definition write_group ::
  "nat \<Rightarrow> string list \<Rightarrow> sheet \<times> nat \<times> nat \<Rightarrow> string list \<times> detail_item list \<Rightarrow> sheet \<times> nat \<times> nat"
where
  "write_group n_keys output_detail_headers st g =
     (case st of (ws, row_num, group_index) \<Rightarrow>
        let start_row = row_num;
            end_row = row_num + length (snd g) - 1;
            key_places = map (\<lambda>i. i + 2) [0 ..< n_keys];
            merged = (if start_row < end_row
                      then (start_row, end_row, 1) # map (\<lambda>c. (start_row, end_row, c)) key_places
                      else [])
        in (ws\<lparr>body := body ws @ map (sheet_row group_index (fst g) output_detail_headers) (snd g),
               merges := merges ws @ merged,
               centred := centred ws @ (start_row, 1) # map (\<lambda>c. (start_row, c)) key_places\<rparr>,
            row_num + length (snd g),
            group_index + 1))"

definition render_sheet :: "string list \<Rightarrow> string list \<Rightarrow> groups \<Rightarrow> sheet" where
  "render_sheet key_cols detail_cols groups =
     (let output_detail_headers = map output_name detail_cols;
          headers = col_seq # key_cols @ output_detail_headers;
          ws = \<lparr>header = headers, body = [], merges = [], centred = []\<rparr>
      in fst (foldl (write_group (length key_cols) output_detail_headers) (ws, 2, 1) groups))"

section \<open>One run of the export\<close>

text \<open>
  What the collaborators of one run answer: the path chosen in the save dialog (empty when
  the dialog is cancelled), the stem of a path (\<open>os.path.splitext(os.path.basename(p))[0]\<close>),
  and whether building and saving the workbook, creating the directory of the keyed
  export, and writing the keyed export succeed or raise.
\<close>

record env =
  save_path :: string
  file_stem :: "string \<Rightarrow> string"
  save_ok :: bool
  makedirs_ok :: bool
  json_ok :: bool

text \<open>The files and directories a run leaves behind, in the order it makes them.\<close>

datatype effect =
    SavedWorkbook string sheet
  | MadeDirs
  | WroteJson string json_data

text \<open>
  How a run ends: silently without a frame, with the warning box of the validation, with
  the dialog cancelled, with the information box, or with the error box of the handler.
\<close>

datatype outcome = NoFrame | Warning | Cancelled | Information | Critical

definition process_row :: "date_parser \<Rightarrow> (string \<Rightarrow> cell) \<Rightarrow> string \<Rightarrow> string" where
  "process_row to_datetime row = (\<lambda>col. normalize_cell to_datetime col (row col))"

definition process_data ::
  "date_parser \<Rightarrow> env \<Rightarrow> dataframe option \<Rightarrow> bool list \<Rightarrow> outcome \<times> effect list"
where
  "process_data to_datetime e df checks =
     (case df of
        None \<Rightarrow> (NoFrame, [])
      | Some d \<Rightarrow>
          let key_cols = key_columns (selected_columns (columns d) checks);
              detail_cols = detail_columns (columns d) checks
          in if key_cols = [] then (Warning, [])
             else if save_path e = [] then (Cancelled, [])
             else
               let processed = map (process_row to_datetime) (rows d);
                   (groups, json_data_dict) = group_rows key_cols detail_cols processed;
                   wb = render_sheet key_cols detail_cols groups;
                   json_filename = file_stem e (save_path e) @ ''_data.json''
               in if \<not> save_ok e then (Critical, [])
                  else if \<not> makedirs_ok e then (Critical, [SavedWorkbook (save_path e) wb])
                  else if \<not> json_ok e then (Critical, [SavedWorkbook (save_path e) wb, MadeDirs])
                  else (Information,
                        [SavedWorkbook (save_path e) wb, MadeDirs, WroteJson json_filename json_data_dict]))"

section \<open>Notions the properties are stated with\<close>

text \<open>
  The elements of a list in the order of their first occurrence, and one index of the
  grouping as the specification describes it: the keys in first-seen order, each with the
  payloads of the rows of that key in row order.
\<close>

definition first_seen :: "'a list \<Rightarrow> 'a list" where
  "first_seen xs = rev (remdups (rev xs))"

definition index_rows :: "('r \<Rightarrow> 'k) \<Rightarrow> ('r \<Rightarrow> 'v) \<Rightarrow> 'r list \<Rightarrow> ('k \<times> 'v list) list" where
  "index_rows kf vf rs = map (\<lambda>k. (k, map vf (filter (\<lambda>r. kf r = k) rs))) (first_seen (map kf rs))"




text \<open>
  Sample inputs: a row given by the cells under its labels, a date parser that reads
  nothing as a date, and a stem that cuts a path at its first point.
\<close>

definition row_of :: "(string \<times> 'v) list \<Rightarrow> 'v \<Rightarrow> string \<Rightarrow> 'v" where
  "row_of cells dflt col = dict_get cells col dflt"

definition no_dates :: date_parser where
  "no_dates s = None"

definition stem_to_point :: "string \<Rightarrow> string" where
  "stem_to_point p = takeWhile (\<lambda>c. c \<noteq> CHR ''.'') p"

section \<open>Properties\<close>

subsection \<open>Characters of numeric strings\<close>

lemma digit_char_is_digit: "d < 10 \<Longrightarrow> is_digit_char (digit_char d)"
proof -
  assume "d < 10"
  then have "d \<in> {0, 1, 2, 3, 4, 5, 6, 7, 8, 9}" by auto
  then show ?thesis by (auto simp: digit_char_def is_digit_char_def)
qed


lemma is_digit_char_cases:
  "is_digit_char c \<longleftrightarrow> c \<in> set ''0123456789''"
  by (simp add: is_digit_char_def)

lemma is_digit_charE:
  assumes "is_digit_char c"
  obtains "c = CHR ''0''" | "c = CHR ''1''" | "c = CHR ''2''" | "c = CHR ''3''" | "c = CHR ''4''"
    | "c = CHR ''5''" | "c = CHR ''6''" | "c = CHR ''7''" | "c = CHR ''8''" | "c = CHR ''9''"
  using assms unfolding is_digit_char_def by auto

lemma digit_not_special:
  assumes "is_digit_char c"
  shows "c \<noteq> CHR ''.''" "c \<noteq> CHR ''_''" "c \<noteq> CHR ''+''" "c \<noteq> CHR ''-''"
    "\<not> is_space_char c" "\<not> is_c_space c" "lower_char c = c"
  by (rule is_digit_charE [OF assms]; simp add: is_space_char_def is_c_space_def lower_char_def)+

lemma point_not_special:
  "\<not> is_digit_char CHR ''.''" "\<not> is_space_char CHR ''.''" "\<not> is_c_space CHR ''.''"
  "lower_char CHR ''.'' = CHR ''.''"
  by (simp_all add: is_digit_char_def is_space_char_def is_c_space_def lower_char_def)

lemma str_nat_digits: "list_all is_digit_char (str_nat n)"
proof (induction n rule: str_nat.induct)
  case (1 n)
  show ?case
  proof (cases "n < 10")
    case True
    then have "str_nat n = [digit_char n]" by (subst str_nat.simps) simp
    with True show ?thesis by (simp add: digit_char_is_digit)
  next
    case False
    then have "str_nat n = str_nat (n div 10) @ [digit_char (n mod 10)]"
      by (subst str_nat.simps) simp
    with 1 False show ?thesis by (simp add: digit_char_is_digit)
  qed
qed





subsection \<open>The shape of a numeric-looking string\<close>

lemma replace_first_absent: "c \<notin> set s \<Longrightarrow> replace_first c s = s"
  by (induction s) auto

lemma replace_first_chars:
  "list_all P (replace_first c s) \<Longrightarrow> x \<in> set s \<Longrightarrow> P x \<or> x = c"
  by (induction s) (auto simp: list_all_iff split: if_splits)

lemma numeric_chars:
  assumes "numeric_looking s" and "x \<in> set s"
  shows "is_digit_char x \<or> x = CHR ''.''"
  using assms replace_first_chars [of is_digit_char "CHR ''.''" s x]
  by (simp add: numeric_looking_def isdigit_def)

lemma numeric_nonempty: "numeric_looking s \<Longrightarrow> s \<noteq> []"
  by (auto simp: numeric_looking_def isdigit_def)

lemma isdigit_numeric: "isdigit s \<Longrightarrow> numeric_looking s"
proof -
  assume d: "isdigit s"
  then have "CHR ''.'' \<notin> set s"
    using digit_not_special(1) by (auto simp: isdigit_def list_all_iff)
  with d show ?thesis by (simp add: numeric_looking_def replace_first_absent)
qed


lemma isdigit_no_point: "isdigit s \<Longrightarrow> CHR ''.'' \<notin> set s"
  using digit_not_special(1) by (auto simp: isdigit_def list_all_iff)


lemma takeWhile_all: "list_all P t \<Longrightarrow> takeWhile P t = t"
  by (simp add: list_all_iff)

lemma dropWhile_all: "list_all P t \<Longrightarrow> dropWhile P t = []"
  by (simp add: list_all_iff)


subsection \<open>Parsing a numeric-looking string\<close>

lemma strip_by_none:
  assumes "\<forall>x \<in> set s. \<not> p x"
  shows "strip_by p s = s"
proof -
  have dw: "dropWhile p xs = xs" if "\<forall>x \<in> set xs. \<not> p x" for xs
    using that by (cases xs) auto
  from assms have "dropWhile p s = s" by (rule dw)
  moreover from assms have "dropWhile p (rev s) = rev s" by (intro dw) simp
  ultimately show ?thesis by (simp add: strip_by_def)
qed

lemma drop_underscores_none:
  "CHR ''_'' \<notin> set s \<Longrightarrow> prev \<noteq> CHR ''_'' \<Longrightarrow> drop_underscores prev s = Some s"
  by (induction s arbitrary: prev) auto

lemma lower_fixed: "\<forall>x \<in> set s. lower_char x = x \<Longrightarrow> lower s = s"
  by (simp add: lower_def map_idI)

lemma numeric_plain:
  assumes "numeric_looking s"
  shows "strip_by is_c_space s = s" "strip s = s" "drop_underscores (CHR 0x00) s = Some s"
    "split_sign s = (False, s)" "lower s = s" "CHR ''+'' \<notin> set s" "CHR ''-'' \<notin> set s"
proof -
  note ch = numeric_chars [OF assms]
  show "strip_by is_c_space s = s"
    by (rule strip_by_none) (use ch digit_not_special(6) point_not_special(3) in blast)
  show "strip s = s" unfolding strip_def
    by (rule strip_by_none) (use ch digit_not_special(5) point_not_special(2) in blast)
  have "CHR ''_'' \<notin> set s" using ch digit_not_special(2) by fastforce
  then show "drop_underscores (CHR 0x00) s = Some s" by (simp add: drop_underscores_none)
  show plus: "CHR ''+'' \<notin> set s" using ch digit_not_special(3) by fastforce
  show minus: "CHR ''-'' \<notin> set s" using ch digit_not_special(4) by fastforce
  from plus minus show "split_sign s = (False, s)" by (cases s) auto
  show "lower s = s"
    by (rule lower_fixed) (use ch digit_not_special(7) point_not_special(4) in blast)
qed

lemma numeric_not_word:
  assumes "numeric_looking s"
  shows "s \<noteq> ''inf''" "s \<noteq> ''infinity''" "s \<noteq> ''nan''"
  using numeric_chars [OF assms, of "CHR ''n''"]
  by (auto simp: is_digit_char_def)

lemma parse_decimal_digits:
  "isdigit s \<Longrightarrow> parse_decimal s = Some (nat_of_digits s, 0)"
  by (simp add: parse_decimal_def isdigit_def takeWhile_all dropWhile_all)



lemma py_float_digits:
  assumes "isdigit s"
  shows "py_float s = Some (round_double (nat_of_digits s) 1)"
proof -
  note n = isdigit_numeric [OF assms]
  show ?thesis
    unfolding py_float_def
    by (simp add: numeric_plain [OF n] numeric_not_word [OF n] parse_decimal_digits [OF assms])
qed




subsection \<open>The passes on strings without their markers\<close>

lemma startswith_set: "startswith s sub \<Longrightarrow> set sub \<subseteq> set s"
  by (induction s sub rule: startswith.induct) auto

lemma contains_set: "contains s sub \<Longrightarrow> set sub \<subseteq> set s"
proof (induction s)
  case Nil
  then show ?case by simp
next
  case (Cons x xs)
  from Cons.prems have "startswith (x # xs) sub \<or> contains xs sub" by simp
  then show ?case
  proof
    assume "startswith (x # xs) sub"
    then show ?thesis by (rule startswith_set)
  next
    assume "contains xs sub"
    then have "set sub \<subseteq> set xs" by (rule Cons.IH)
    then show ?thesis by auto
  qed
qed

lemma lower_char_plus: "lower_char c = CHR ''+'' \<Longrightarrow> c = CHR ''+''"
proof (cases "map_of (zip ''ABCDEFGHIJKLMNOPQRSTUVWXYZ'' ''abcdefghijklmnopqrstuvwxyz'') c")
  case None
  assume "lower_char c = CHR ''+''"
  with None show ?thesis by (simp add: lower_char_def)
next
  case (Some l)
  assume "lower_char c = CHR ''+''"
  with Some have "l = CHR ''+''" by (simp add: lower_char_def)
  moreover from Some have "l \<in> set ''abcdefghijklmnopqrstuvwxyz''"
    by (blast dest: map_of_SomeD set_zip_rightD)
  ultimately show ?thesis by simp
qed

lemma lower_plus: "CHR ''+'' \<in> set (lower s) \<Longrightarrow> CHR ''+'' \<in> set s"
proof -
  assume "CHR ''+'' \<in> set (lower s)"
  then obtain x where x: "x \<in> set s" "lower_char x = CHR ''+''"
    by (auto simp: lower_def)
  from x(2) have "x = CHR ''+''" by (rule lower_char_plus)
  with x(1) show ?thesis by simp
qed

lemma fix_sci_no_plus: "CHR ''+'' \<notin> set s \<Longrightarrow> fix_sci s = s"
proof -
  assume np: "CHR ''+'' \<notin> set s"
  have "\<not> contains (lower s) ''e+''"
  proof
    assume "contains (lower s) ''e+''"
    then have "CHR ''+'' \<in> set (lower s)" by (auto dest: contains_set)
    with np show False by (auto dest: lower_plus)
  qed
  then show ?thesis by (simp add: fix_sci_def)
qed

lemma endswith_append: "endswith (s @ t) t"
  by (simp add: endswith_def)

lemma endswith_set: "endswith s t \<Longrightarrow> set t \<subseteq> set s"
proof -
  assume "endswith s t"
  then have "drop (length s - length t) s = t" by (simp add: endswith_def)
  then have "set t = set (drop (length s - length t) s)" by simp
  also have "\<dots> \<subseteq> set s" by (rule set_drop_subset)
  finally show ?thesis .
qed

lemma endswith_split: "endswith s t \<Longrightarrow> s = take (length s - length t) s @ t"
  by (metis append_take_drop_id endswith_def)

lemma trim_nan_suffix: "trim_nan (s @ ''.0'') = s"
  by (simp add: trim_nan_def endswith_def)

lemma trim_nan_no_point: "CHR ''.'' \<notin> set s \<Longrightarrow> s \<noteq> ''nan'' \<Longrightarrow> trim_nan s = s"
  by (auto simp: trim_nan_def dest: endswith_set)

lemma trim_nan_set: "set (trim_nan s) \<subseteq> set s"
  by (auto simp: trim_nan_def dest: in_set_takeD)

subsection \<open>Integers as strings\<close>

lemma str_int_chars: "x \<in> set (str_int i) \<Longrightarrow> is_digit_char x \<or> x = CHR ''-''"
  using str_nat_digits by (auto simp: str_int_def list_all_iff split: if_splits)

lemma str_int_no_plus: "CHR ''+'' \<notin> set (str_int i)"
  using str_int_chars [of "CHR ''+''" i] by (auto simp: is_digit_char_def)

lemma str_int_no_point: "CHR ''.'' \<notin> set (str_int i)"
  using str_int_chars [of "CHR ''.''" i] by (auto simp: is_digit_char_def)

lemma str_int_not_nan: "str_int i \<noteq> ''nan''"
  using str_int_chars [of "CHR ''n''" i] by (auto simp: is_digit_char_def)




subsection \<open>The passes of a column\<close>

lemma normalize_plain_column:
  "\<not> is_date_column col \<Longrightarrow> normalize_cell to_datetime col (Text s) = fix_sci (trim_nan s)"
  by (simp add: normalize_cell_def astype_str_def)

lemma normalize_date_column:
  "is_date_column col \<Longrightarrow>
     normalize_cell to_datetime col v = fix_sci (trim_nan (format_excel_date to_datetime v))"
  by (simp add: normalize_cell_def astype_str_def)

lemmas eval_float = py_float_def parse_decimal_def strip_by_def is_c_space_def is_digit_char_def
  isdigit_def lower_def lower_char_def nat_of_digits_def digit_val_def round_double_def
  round_half_even_def bit_length.simps Let_def float_neg_def


lemmas eval_date = timedelta_days_def trunc_rat_def us_per_day_def microseconds_to_delta_def
  excel_serial_date_def excel_epoch_ordinal_def max_ordinal_def ord2ymd_def days_before_month_def
  days_in_month_def strftime_ymd_def zfill_def digit_char_def float_gt_def str_nat.simps

lemmas eval_norm = normalize_cell_def format_excel_date_def serial_string_date_def
  numeric_looking_def strip_def is_space_char_def astype_str_def trim_nan_def endswith_def
  fix_sci_def int_of_float_def str_int_def

lemma is_date_column_samples:
  "is_date_column col_date" "is_date_column ''Date''" "\<not> is_date_column ''remark''"
  by (simp_all add: is_date_column_def date_keywords_def kw_date_def kw_time_def col_date_def)

subsection \<open>Whole numbers as doubles\<close>

lemma bit_length_bounds: "0 < n \<Longrightarrow> 2 ^ (bit_length n - 1) \<le> n \<and> n < 2 ^ bit_length n"
proof (induction n rule: bit_length.induct)
  case (1 n)
  show ?case
  proof (cases "n div 2 = 0")
    case True
    with "1.prems" have n: "n = 1" by (cases n) auto
    have "bit_length 1 = 1" by (simp add: bit_length.simps)
    with n show ?thesis by simp
  next
    case False
    then have pos: "0 < n div 2" by simp
    from "1.prems" have bl: "bit_length n = Suc (bit_length (n div 2))"
      by (subst bit_length.simps) simp
    from pos have blpos: "0 < bit_length (n div 2)" by (subst bit_length.simps) simp
    from "1.IH" [OF _ pos] "1.prems"
    have ih: "2 ^ (bit_length (n div 2) - 1) \<le> n div 2" "n div 2 < 2 ^ bit_length (n div 2)"
      by simp_all
    from ih(1) have "2 * 2 ^ (bit_length (n div 2) - 1) \<le> n" by linarith
    moreover from blpos have "2 * 2 ^ (bit_length (n div 2) - 1) = (2::nat) ^ bit_length (n div 2)"
      by (cases "bit_length (n div 2)") simp_all
    moreover from ih(2) have "n < 2 * 2 ^ bit_length (n div 2)" by linarith
    ultimately show ?thesis by (simp add: bl)
  qed
qed

lemma bit_length_pos: "0 < n \<Longrightarrow> 0 < bit_length n"
  by (subst bit_length.simps) simp

lemma bit_length_le: "0 < n \<Longrightarrow> n < 2 ^ k \<Longrightarrow> bit_length n \<le> k"
proof (rule ccontr)
  assume n: "0 < n" "n < 2 ^ k" and "\<not> bit_length n \<le> k"
  then have "k \<le> bit_length n - 1" by simp
  then have "(2::nat) ^ k \<le> 2 ^ (bit_length n - 1)" by (simp add: power_increasing)
  also have "\<dots> \<le> n" using bit_length_bounds [OF n(1)] by simp
  finally show False using n(2) by simp
qed

lemma round_half_even_one: "round_half_even n 1 = n"
  by (simp add: round_half_even_def)

text \<open>A whole number below \<open>2 ^ 53\<close> is a double.\<close>

lemma round_double_exact:
  assumes "n < 2 ^ 53"
  shows "round_double n 1 = Fin (of_nat n)"
proof (cases "n = 0")
  case True
  then show ?thesis by (simp add: round_double_def)
next
  case False
  then have pos: "0 < n" by simp
  define b where "b = bit_length n"
  have b1: "bit_length 1 = 1" by (simp add: bit_length.simps)
  have bpos: "0 < b" unfolding b_def using pos by (rule bit_length_pos)
  have ble: "b \<le> 53" unfolding b_def using pos assms by (rule bit_length_le)
  have low: "2 ^ (b - 1) \<le> n" unfolding b_def using bit_length_bounds [OF pos] by simp
  have n1: "nat (int b - 1) = b - 1" "nat (53 - int b) = 53 - b" using bpos ble by simp_all
  have r1: "round_half_even x (Suc 0) = x" for x by (simp add: round_half_even_def)
  have "round_double n 1 =
      Fin (of_nat (n * 2 ^ (53 - b)) / of_nat (2 ^ (53 - b)))"
    unfolding round_double_def Let_def b1 b_def [symmetric]
    using False low ble bpos by (simp add: n1 r1)
  also have "of_nat (n * 2 ^ (53 - b)) / of_nat (2 ^ (53 - b)) = (of_nat n :: rat)" by simp
  finally show ?thesis .
qed


lemma round_half_even_ge: "n div d \<le> round_half_even n d"
  by (simp add: round_half_even_def Let_def)

text \<open>A larger whole number rounds to a whole number that is no smaller than \<open>2 ^ 53\<close>.\<close>

lemma round_double_large:
  assumes "2 ^ 53 \<le> n"
  shows "round_double n 1 = PosInf \<or> (\<exists>k. round_double n 1 = Fin (of_nat k) \<and> 2 ^ 53 \<le> k)"
proof -
  from assms have pos: "0 < n" by (cases "n = 0") simp_all
  define b where "b = bit_length n"
  have b1: "bit_length 1 = 1" by (simp add: bit_length.simps)
  have low: "2 ^ (b - 1) \<le> n" and up: "n < 2 ^ b"
    unfolding b_def using bit_length_bounds [OF pos] by simp_all
  have bge: "54 \<le> b"
  proof (rule ccontr)
    assume "\<not> 54 \<le> b"
    then have "b \<le> 53" by simp
    then have "(2::nat) ^ b \<le> 2 ^ 53" by (rule power_increasing) simp
    with up assms show False by simp
  qed
  define m where "m = round_half_even n (2 ^ (b - 53))"
  have n1: "nat (int b - 1) = b - 1" "nat (int b - 53) = b - 53" "nat (53 - int b) = 0"
    using bge by simp_all
  have e: "(if 1 * 2 ^ nat (int b - int 1) \<le> n * 2 ^ nat (- (int b - int 1))
            then int b - int 1 else int b - int 1 - 1) = int b - 1"
    using low bge by (simp add: n1)
  have p: "max (int b - 1 - 52) (- 1074) = int b - 53" using bge by simp
  have rd: "round_double n 1 = PosInf \<or> round_double n 1 = Fin (of_nat (m * 2 ^ (b - 53)))"
    unfolding round_double_def Let_def b1 b_def [symmetric] e p
    using pos by (simp add: n1 m_def)
  have "b - 1 = 52 + (b - 53)" using bge by simp
  then have "(2::nat) ^ (b - 1) = 2 ^ (52 + (b - 53))" by (rule arg_cong)
  then have "2 ^ 52 * 2 ^ (b - 53) = (2::nat) ^ (b - 1)" by (simp only: power_add)
  with low have "2 ^ 52 * 2 ^ (b - 53) \<le> n" by simp
  then have "2 ^ 52 \<le> n div 2 ^ (b - 53)"
    by (simp add: less_eq_div_iff_mult_less_eq)
  also have "\<dots> \<le> m" unfolding m_def by (rule round_half_even_ge)
  finally have mge: "2 ^ 52 \<le> m" .
  have "(2::nat) ^ 53 = 2 ^ 52 * 2 ^ 1" by simp
  also have "\<dots> \<le> m * 2 ^ (b - 53)"
  proof (rule mult_le_mono [OF mge])
    have "1 \<le> b - 53" using bge by simp
    then show "(2::nat) ^ 1 \<le> 2 ^ (b - 53)" by (rule power_increasing) simp
  qed
  finally have "2 ^ 53 \<le> m * 2 ^ (b - 53)" .
  with rd show ?thesis by auto
qed

subsection \<open>Serial dates of whole numbers\<close>

lemma timedelta_days_whole:
  "timedelta_days (Fin (of_nat k)) = (if k \<le> 999999999 then Some (int k * us_per_day) else None)"
  by (simp add: timedelta_days_def trunc_rat_def microseconds_to_delta_def us_per_day_def Let_def)

lemma excel_serial_whole:
  "excel_serial_date (Fin (of_nat k)) =
     (if k \<le> 2958465 then Some (strftime_ymd (ord2ymd (693594 + k))) else None)"
  by (simp add: excel_serial_date_def timedelta_days_whole us_per_day_def excel_epoch_ordinal_def
        max_ordinal_def Let_def nat_add_distrib)

lemma serial_string_date_digits:
  assumes "isdigit s"
  shows "serial_string_date s =
           (if 10000 < nat_of_digits s \<and> nat_of_digits s \<le> 2958465
            then Some (strftime_ymd (ord2ymd (693594 + nat_of_digits s))) else None)"
proof -
  define n where "n = nat_of_digits s"
  have f: "py_float s = Some (round_double n 1)" unfolding n_def using assms by (rule py_float_digits)
  have nl: "numeric_looking s" using assms by (rule isdigit_numeric)
  show ?thesis
  proof (cases "n < 2 ^ 53")
    case True
    then have "round_double n 1 = Fin (of_nat n)" by (rule round_double_exact)
    with f nl show ?thesis
      unfolding n_def [symmetric]
      by (simp add: serial_string_date_def float_gt_def excel_serial_whole)
  next
    case False
    then have big: "2 ^ 53 \<le> n" by simp
    then have n: "\<not> n \<le> 2958465" by simp
    from round_double_large [OF big] show ?thesis
    proof
      assume "round_double n 1 = PosInf"
      with f nl n show ?thesis
        unfolding n_def [symmetric]
        by (simp add: serial_string_date_def float_gt_def excel_serial_date_def timedelta_days_def)
    next
      assume "\<exists>k. round_double n 1 = Fin (of_nat k) \<and> 2 ^ 53 \<le> k"
      then obtain k where k: "round_double n 1 = Fin (of_nat k)" "2 ^ 53 \<le> k" by blast
      from k(2) have "\<not> k \<le> 2958465" by simp
      with f nl n k(1) show ?thesis
        unfolding n_def [symmetric]
        by (simp add: serial_string_date_def excel_serial_whole)
    qed
  qed
qed

lemma first_seen_snoc:
  "first_seen (xs @ [x]) = (if x \<in> set xs then first_seen xs else first_seen xs @ [x])"
  by (simp add: first_seen_def)

lemma set_first_seen: "set (first_seen xs) = set xs"
  by (simp add: first_seen_def)

lemma distinct_first_seen: "distinct (first_seen xs)"
  by (simp add: first_seen_def)

lemma first_seen_map_inj:
  "inj_on f (set xs) \<Longrightarrow> first_seen (map f xs) = map f (first_seen xs)"
proof (induction xs rule: rev_induct)
  case Nil
  show ?case by (simp add: first_seen_def)
next
  case (snoc x xs)
  from snoc.prems have inj: "inj_on f (set xs)" and mem: "f x \<in> f ` set xs \<longleftrightarrow> x \<in> set xs"
    by (auto simp: inj_on_def)
  show ?case using snoc.IH [OF inj] mem by (simp add: first_seen_snoc)
qed

lemma keys_index_rows: "map fst (index_rows kf vf rs) = first_seen (map kf rs)"
  by (simp add: index_rows_def comp_def)

lemma index_rows_snoc:
  "dict_append (kf r) (vf r) (dict_ensure (kf r) (index_rows kf vf rs)) = index_rows kf vf (rs @ [r])"
proof (cases "kf r \<in> set (map kf rs)")
  case True
  then have "dict_ensure (kf r) (index_rows kf vf rs) = index_rows kf vf rs"
    by (simp add: dict_ensure_def keys_index_rows set_first_seen)
  moreover have "dict_append (kf r) (vf r) (index_rows kf vf rs) = index_rows kf vf (rs @ [r])"
    using True by (auto simp: dict_append_def index_rows_def first_seen_snoc)
  ultimately show ?thesis by simp
next
  case False
  then have "dict_ensure (kf r) (index_rows kf vf rs) = index_rows kf vf rs @ [(kf r, [])]"
    by (simp add: dict_ensure_def keys_index_rows set_first_seen)
  moreover have "filter (\<lambda>r'. kf r' = kf r) rs = []"
    using False by (induction rs) auto
  ultimately show ?thesis
    using False by (auto simp: dict_append_def index_rows_def first_seen_snoc set_first_seen)
qed

lemma group_rows_index:
  "foldl (group_row key_cols detail_cols) ([], []) rs =
     (index_rows (key_tuple key_cols) (build_detail_item detail_cols) rs,
      index_rows (key_str key_cols) (build_detail_item detail_cols) rs)"
proof (induction rs rule: rev_induct)
  case Nil
  show ?case by (simp add: index_rows_def first_seen_def)
next
  case (snoc r rs)
  have "foldl (group_row key_cols detail_cols) ([], []) (rs @ [r]) =
        group_row key_cols detail_cols (foldl (group_row key_cols detail_cols) ([], []) rs) r"
    by simp
  also have "\<dots> = group_row key_cols detail_cols
        (index_rows (key_tuple key_cols) (build_detail_item detail_cols) rs,
         index_rows (key_str key_cols) (build_detail_item detail_cols) rs) r"
    by (simp only: snoc.IH)
  also have "\<dots> = (index_rows (key_tuple key_cols) (build_detail_item detail_cols) (rs @ [r]),
                      index_rows (key_str key_cols) (build_detail_item detail_cols) (rs @ [r]))"
    by (simp add: group_row_def index_rows_snoc Let_def)
  finally show ?case .
qed

lemma append_sep_eq:
  assumes "c \<notin> set x" "c \<notin> set y" "x @ c # r = y @ c # r'"
  shows "x = y \<and> r = r'"
proof -
  have "takeWhile (\<lambda>a. a \<noteq> c) (x @ c # r) = takeWhile (\<lambda>a. a \<noteq> c) x"
    by (simp add: takeWhile_tail)
  also have "\<dots> = x" using assms(1) by (auto simp: takeWhile_eq_all_conv)
  finally have tx: "takeWhile (\<lambda>a. a \<noteq> c) (x @ c # r) = x" .
  have "takeWhile (\<lambda>a. a \<noteq> c) (y @ c # r') = takeWhile (\<lambda>a. a \<noteq> c) y"
    by (simp add: takeWhile_tail)
  also have "\<dots> = y" using assms(2) by (auto simp: takeWhile_eq_all_conv)
  finally have ty: "takeWhile (\<lambda>a. a \<noteq> c) (y @ c # r') = y" .
  from tx ty assms(3) have "x = y" by simp
  with assms(3) show ?thesis by simp
qed

lemma join_inj:
  assumes "length xs = length ys"
    and "\<forall>x \<in> set xs. c \<notin> set x" and "\<forall>y \<in> set ys. c \<notin> set y"
    and "join [c] xs = join [c] ys"
  shows "xs = ys"
  using assms
proof (induction xs ys rule: list_induct2)
  case Nil
  show ?case by simp
next
  case (Cons x xs y ys)
  show ?case
  proof (cases xs)
    case Nil
    with Cons show ?thesis by simp
  next
    case (Cons x' xs')
    with Cons.hyps obtain y' ys' where ys: "ys = y' # ys'" by (cases ys) auto
    from Cons.prems(3) Cons ys have "x @ c # join [c] xs = y @ c # join [c] ys" by simp
    with Cons.prems(1,2) have "x = y \<and> join [c] xs = join [c] ys"
      by (intro append_sep_eq) auto
    with Cons.IH Cons.prems(1,2) show ?thesis by simp
  qed
qed


lemma index_rows_inj:
  assumes "inj_on J (kf ` set rs)"
  shows "index_rows (\<lambda>r. J (kf r)) vf rs = map (\<lambda>(k, items). (J k, items)) (index_rows kf vf rs)"
proof -
  have fs: "first_seen (map (\<lambda>r. J (kf r)) rs) = map J (first_seen (map kf rs))"
    using first_seen_map_inj [of J "map kf rs"] assms by (simp add: comp_def)
  have flt: "filter (\<lambda>r. J (kf r) = J k) rs = filter (\<lambda>r. kf r = k) rs"
    if "k \<in> set (first_seen (map kf rs))" for k
  proof (rule filter_cong [OF refl])
    fix r assume "r \<in> set rs"
    with that assms show "(J (kf r) = J k) = (kf r = k)"
      by (auto simp: set_first_seen inj_on_def)
  qed
  show ?thesis
    unfolding index_rows_def fs by (simp add: comp_def flt)
qed

lemma key_str_inj_on:
  assumes "\<forall>row \<in> set processed. \<forall>col \<in> set key_cols. CHR ''_'' \<notin> set (row col)"
  shows "inj_on (join ''_'') (key_tuple key_cols ` set processed)"
proof (rule inj_onI)
  fix a b
  assume a: "a \<in> key_tuple key_cols ` set processed"
    and b: "b \<in> key_tuple key_cols ` set processed"
    and eq: "join ''_'' a = join ''_'' b"
  from a b have "length a = length b" by (auto simp: key_tuple_def)
  moreover from a assms have "\<forall>x \<in> set a. CHR ''_'' \<notin> set x" by (auto simp: key_tuple_def)
  moreover from b assms have "\<forall>y \<in> set b. CHR ''_'' \<notin> set y" by (auto simp: key_tuple_def)
  ultimately show "a = b" using eq by (rule join_inj)
qed

text \<open>
  C1.  When no key value of a row contains the separator \<open>_\<close> (and the list of key
  columns is not empty), the index by key tuple and the index by key string group the
  rows alike: two rows have the same key tuple exactly when they have the same key string;
  each index lists its keys in first-seen order, each key with the detail records of its
  rows in row order; and the string index is the tuple index with every key joined.
\<close>

theorem grouping_indexes_agree:
  assumes "key_cols \<noteq> []"
    and "\<forall>row \<in> set processed. \<forall>col \<in> set key_cols. CHR ''_'' \<notin> set (row col)"
  shows "(\<forall>r1 \<in> set processed. \<forall>r2 \<in> set processed.
            (key_tuple key_cols r1 = key_tuple key_cols r2) = (key_str key_cols r1 = key_str key_cols r2))
       \<and> fst (group_rows key_cols detail_cols processed)
           = index_rows (key_tuple key_cols) (build_detail_item detail_cols) processed
       \<and> snd (group_rows key_cols detail_cols processed)
           = index_rows (key_str key_cols) (build_detail_item detail_cols) processed
       \<and> snd (group_rows key_cols detail_cols processed)
           = map (\<lambda>(k, items). (join ''_'' k, items)) (fst (group_rows key_cols detail_cols processed))"
proof -
  have inj: "inj_on (join ''_'') (key_tuple key_cols ` set processed)"
    using assms(2) by (rule key_str_inj_on)
  have ks: "key_str key_cols = (\<lambda>r. join ''_'' (key_tuple key_cols r))"
    by (simp add: key_str_def key_tuple_def fun_eq_iff)
  have part: "\<forall>r1 \<in> set processed. \<forall>r2 \<in> set processed.
            (key_tuple key_cols r1 = key_tuple key_cols r2) = (key_str key_cols r1 = key_str key_cols r2)"
    using inj by (auto simp: ks inj_on_def)
  have g: "group_rows key_cols detail_cols processed =
     (index_rows (key_tuple key_cols) (build_detail_item detail_cols) processed,
      index_rows (key_str key_cols) (build_detail_item detail_cols) processed)"
    unfolding group_rows_def by (rule group_rows_index)
  have rel: "index_rows (key_str key_cols) (build_detail_item detail_cols) processed
      = map (\<lambda>(k, items). (join ''_'' k, items))
          (index_rows (key_tuple key_cols) (build_detail_item detail_cols) processed)"
    unfolding ks using inj by (rule index_rows_inj)
  show ?thesis using part rel by (simp add: g)
qed

theorem grouping_indexes_agree_witness:
  "snd (group_rows [''k1'', ''k2''] [''d'']
          [row_of [(''k1'', ''a''), (''k2'', ''b''), (''d'', ''x'')] [],
           row_of [(''k1'', ''z''), (''k2'', ''z''), (''d'', ''7'')] [],
           row_of [(''k1'', ''a''), (''k2'', ''b''), (''d'', ''y'')] []])
     = map (\<lambda>(k, items). (join ''_'' k, items))
         (fst (group_rows [''k1'', ''k2''] [''d'']
          [row_of [(''k1'', ''a''), (''k2'', ''b''), (''d'', ''x'')] [],
           row_of [(''k1'', ''z''), (''k2'', ''z''), (''d'', ''7'')] [],
           row_of [(''k1'', ''a''), (''k2'', ''b''), (''d'', ''y'')] []]))
   \<and> fst (group_rows [''k1'', ''k2''] [''d'']
          [row_of [(''k1'', ''a''), (''k2'', ''b''), (''d'', ''x'')] [],
           row_of [(''k1'', ''z''), (''k2'', ''z''), (''d'', ''7'')] [],
           row_of [(''k1'', ''a''), (''k2'', ''b''), (''d'', ''y'')] []])
     = [([''a'', ''b''], [[(''d'', PStr ''x'')], [(''d'', PStr ''y'')]]),
        ([''z'', ''z''], [[(''d'', PInt 7)]])]"
  (is "?C \<and> ?V")
proof -
  have h1: "[''k1'', ''k2''] \<noteq> []" by simp
  have h2: "\<forall>row \<in> set [row_of [(''k1'', ''a''), (''k2'', ''b''), (''d'', ''x'')] [],
                          row_of [(''k1'', ''z''), (''k2'', ''z''), (''d'', ''7'')] [],
                          row_of [(''k1'', ''a''), (''k2'', ''b''), (''d'', ''y'')] []].
            \<forall>col \<in> set [''k1'', ''k2'']. CHR ''_'' \<notin> set (row col)"
    by (simp add: row_of_def dict_get_def)
  have c: ?C using grouping_indexes_agree [OF h1 h2, of "[''d'']"] by blast
  have v: ?V
    by (simp add: group_rows_def group_row_def key_tuple_def key_str_def dict_ensure_def
        dict_append_def build_detail_item_def output_name_def COLUMN_MAPPING_def coerce_detail_def
        numeric_looking_def isdigit_def is_digit_char_def col_fee_yuan_def Let_def
        row_of_def dict_get_def py_int_def strip_by_def is_space_char_def nat_of_digits_def
        digit_val_def monetary_columns_def col_fee_def col_discount_def col_payable_def)
  from c v show ?thesis by blast
qed


lemma selected_columns_empty_iff:
  "length checks = length cols \<Longrightarrow> selected_columns cols checks = [] \<longleftrightarrow> (\<forall>b \<in> set checks. \<not> b)"
  by (induction cols checks rule: list_induct2') (auto simp: selected_columns_def)

text \<open>
  C3.  When the list of key columns is empty (no box is checked), the run ends with the
  warning box of the validation, not with the error box of the handler, and leaves no
  file: nothing is grouped, rendered or written.
\<close>

theorem empty_key_selection_warns:
  assumes "key_columns (selected_columns (columns d) checks) = []"
  shows "process_data to_datetime e (Some d) checks = (Warning, [])"
  using assms by (simp add: process_data_def Let_def)

theorem empty_key_selection_warns_witness:
  "process_data no_dates \<lparr>save_path = ''out.xlsx'', file_stem = stem_to_point, save_ok = True,
                           makedirs_ok = True, json_ok = True\<rparr>
     (Some \<lparr>columns = [''a'', ''b''], rows = [row_of [(''a'', Text ''1''), (''b'', Text ''2'')] Missing]\<rparr>)
     [False, False] = (Warning, [])"
  by (rule empty_key_selection_warns) (simp add: selected_columns_def key_columns_def)



lemmas sample_cols = col_date_def col_out_date_def col_waybill_def col_order_def col_from_def
  col_to_def col_company_def col_boxes_def col_weight_def col_product_def

















lemma fix_sci_empty: "fix_sci [] = []"
  by (simp add: fix_sci_def lower_def)

lemma trim_nan_empty: "trim_nan [] = []"
  by (simp add: trim_nan_def endswith_def)

lemma lower_nan_variant:
  assumes "lower s = ''nan''"
  shows "CHR ''.'' \<notin> set s" "\<not> contains (lower s) ''e+''" "s \<noteq> []"
proof -
  show "CHR ''.'' \<notin> set s"
  proof
    assume "CHR ''.'' \<in> set s"
    then have "lower_char CHR ''.'' \<in> set (lower s)" by (simp add: lower_def)
    with assms show False by (simp add: point_not_special)
  qed
  show "\<not> contains (lower s) ''e+''" by (simp add: assms)
  from assms show "s \<noteq> []" by (auto simp: lower_def)
qed

text \<open>
  C7, as the code has it.  In every column a missing cell, an empty cell and the text
  \<open>nan\<close> in lower case normalize to the empty string.  A cell that is \<open>nan\<close> in another
  case (\<open>NaN\<close>, \<open>NAN\<close>) normalizes to the empty string in a column that has a date keyword
  in its name, where the date formatter compares in lower case; in any other column the
  comparison is with \<open>nan\<close> itself and the cell is left as it is.
\<close>

theorem absent_values_normalize_empty:
  "normalize_cell to_datetime col Missing = []
   \<and> normalize_cell to_datetime col (Text []) = []
   \<and> normalize_cell to_datetime col (Text ''nan'') = []
   \<and> (is_date_column col \<and> lower s = ''nan'' \<longrightarrow> normalize_cell to_datetime col (Text s) = [])
   \<and> (\<not> is_date_column col \<and> lower s = ''nan'' \<and> s \<noteq> ''nan''
        \<longrightarrow> normalize_cell to_datetime col (Text s) = s)"
proof (intro conjI impI)
  show "normalize_cell to_datetime col Missing = []"
    by (simp add: normalize_cell_def format_excel_date_def astype_str_def trim_nan_def
          endswith_def fix_sci_empty)
  show "normalize_cell to_datetime col (Text []) = []"
    by (simp add: normalize_cell_def format_excel_date_def astype_str_def trim_nan_empty
          fix_sci_empty)
  have l: "lower ''nan'' = ''nan''" by (simp add: lower_def lower_char_def)
  show "normalize_cell to_datetime col (Text ''nan'') = []"
    by (simp add: normalize_cell_def format_excel_date_def astype_str_def trim_nan_def
          endswith_def fix_sci_empty l)
next
  assume "is_date_column col \<and> lower s = ''nan''"
  then show "normalize_cell to_datetime col (Text s) = []"
    by (simp add: normalize_cell_def format_excel_date_def astype_str_def trim_nan_empty
          fix_sci_empty)
next
  assume a: "\<not> is_date_column col \<and> lower s = ''nan'' \<and> s \<noteq> ''nan''"
  then have l: "lower s = ''nan''" by simp
  from lower_nan_variant(1) [OF l] a have "trim_nan s = s" by (simp add: trim_nan_no_point)
  moreover from lower_nan_variant(2) [OF l] have "fix_sci s = s" by (simp add: fix_sci_def)
  ultimately show "normalize_cell to_datetime col (Text s) = s"
    using a by (simp add: normalize_cell_def astype_str_def)
qed

theorem absent_values_normalize_empty_witness:
  "normalize_cell no_dates ''Date'' (Text ''NaN'') = []
   \<and> normalize_cell no_dates ''remark'' (Text ''NAN'') = ''NAN''"
proof -
  have d: "is_date_column ''Date''" "\<not> is_date_column ''remark''"
    by (simp_all add: is_date_column_def date_keywords_def kw_date_def kw_time_def)
  have l: "lower ''NaN'' = ''nan''" "lower ''NAN'' = ''nan''"
    by (simp_all add: lower_def lower_char_def)
  from absent_values_normalize_empty [of no_dates "''Date''" "''NaN''"] d l
  have 1: "normalize_cell no_dates ''Date'' (Text ''NaN'') = []" by simp
  from absent_values_normalize_empty [of no_dates "''remark''" "''NAN''"] d l
  have 2: "normalize_cell no_dates ''remark'' (Text ''NAN'') = ''NAN''" by simp
  from 1 2 show ?thesis by simp
qed

text \<open>
  C7 as stated fails: in a column without a date keyword the text \<open>NaN\<close> is not
  normalized to the empty string.
\<close>

theorem nan_case_counterexample:
  "\<not> is_date_column ''remark'' \<and> normalize_cell no_dates ''remark'' (Text ''NaN'') = ''NaN''"
  by (simp add: is_date_column_def date_keywords_def kw_date_def kw_time_def normalize_cell_def
        astype_str_def trim_nan_def endswith_def fix_sci_def lower_def lower_char_def)

text \<open>
  C9.  The pass of line 350 removes the last two characters of every string that ends in
  \<open>.0\<close>, whatever stands before them, and removes them once.  In a column without a date
  keyword the cell \<open>s.0\<close> therefore normalizes to \<open>s\<close> after the repair of the scientific
  notation; \<open>v1.0\<close> gives \<open>v1\<close>, \<open>.0\<close> gives the empty string and \<open>1.0.0\<close> gives \<open>1.0\<close>,
  in a date column too when the general date parser reads none of them as a date.
\<close>

theorem trailing_point_zero_trim:
  "trim_nan (s @ ''.0'') = s
   \<and> (\<not> is_date_column col \<longrightarrow> normalize_cell to_datetime col (Text (s @ ''.0'')) = fix_sci s)
   \<and> ((is_date_column col \<longrightarrow>
          to_datetime ''v1.0'' = None \<and> to_datetime ''.0'' = None \<and> to_datetime ''1.0.0'' = None)
        \<longrightarrow> normalize_cell to_datetime col (Text ''v1.0'') = ''v1''
            \<and> normalize_cell to_datetime col (Text ''.0'') = []
            \<and> normalize_cell to_datetime col (Text ''1.0.0'') = ''1.0'')"
proof (intro conjI impI)
  show "trim_nan (s @ ''.0'') = s" by (rule trim_nan_suffix)
next
  assume "\<not> is_date_column col"
  then show "normalize_cell to_datetime col (Text (s @ ''.0'')) = fix_sci s"
    by (simp add: normalize_plain_column trim_nan_suffix)
next
  assume h: "is_date_column col \<longrightarrow>
          to_datetime ''v1.0'' = None \<and> to_datetime ''.0'' = None \<and> to_datetime ''1.0.0'' = None"
  have t: "fix_sci (trim_nan ''v1.0'') = ''v1''" "fix_sci (trim_nan ''.0'') = []"
    "fix_sci (trim_nan ''1.0.0'') = ''1.0''"
    by (simp_all add: trim_nan_def endswith_def fix_sci_def lower_def lower_char_def)
  have f: "format_excel_date to_datetime (Text ''v1.0'') = ''v1.0''"
    "format_excel_date to_datetime (Text ''.0'') = ''.0''"
    "format_excel_date to_datetime (Text ''1.0.0'') = ''1.0.0''"
    if "is_date_column col"
    using h that
    by (simp_all add: format_excel_date_def serial_string_date_def numeric_looking_def strip_def
          is_space_char_def float_gt_def eval_float)
  show "normalize_cell to_datetime col (Text ''v1.0'') = ''v1''"
    by (cases "is_date_column col") (simp_all add: normalize_date_column normalize_plain_column f t)
  show "normalize_cell to_datetime col (Text ''.0'') = []"
    by (cases "is_date_column col") (simp_all add: normalize_date_column normalize_plain_column f t)
  show "normalize_cell to_datetime col (Text ''1.0.0'') = ''1.0''"
    by (cases "is_date_column col") (simp_all add: normalize_date_column normalize_plain_column f t)
qed

theorem trailing_point_zero_trim_witness:
  "normalize_cell no_dates ''remark'' (Text ''v1.0'') = ''v1''
   \<and> normalize_cell no_dates ''remark'' (Text ''.0'') = []
   \<and> normalize_cell no_dates ''remark'' (Text ''1.0.0'') = ''1.0''
   \<and> normalize_cell no_dates ''Date'' (Text ''1.0.0'') = ''1.0''
   \<and> normalize_cell no_dates ''remark'' (Text ''ab.0'') = ''ab''"
proof -
  have d: "\<not> is_date_column ''remark''"
    by (simp add: is_date_column_def date_keywords_def kw_date_def kw_time_def)
  have ab: "fix_sci ''ab'' = ''ab''"
    by (simp add: fix_sci_def lower_def lower_char_def)
  from trailing_point_zero_trim [of "''ab''" "''remark''" no_dates] d
  have 1: "normalize_cell no_dates ''remark'' (Text ''v1.0'') = ''v1''
     \<and> normalize_cell no_dates ''remark'' (Text ''.0'') = []
     \<and> normalize_cell no_dates ''remark'' (Text ''1.0.0'') = ''1.0''
     \<and> normalize_cell no_dates ''remark'' (Text ''ab.0'') = ''ab''"
    by (simp add: ab)
  from trailing_point_zero_trim [of "[]" "''Date''" no_dates]
  have 2: "normalize_cell no_dates ''Date'' (Text ''1.0.0'') = ''1.0''"
    by (simp add: no_dates_def)
  from 1 2 show ?thesis by simp
qed



subsection \<open>Date strings\<close>

lemma zfill_chars: "x \<in> set (zfill w s) \<Longrightarrow> x = CHR ''0'' \<or> x \<in> set s"
  by (auto simp: zfill_def)

lemma str_nat_chars: "x \<in> set (str_nat n) \<Longrightarrow> is_digit_char x"
  using str_nat_digits [of n] by (simp add: list_all_iff)

lemma strftime_chars:
  assumes "x \<in> set (strftime_ymd ymd)"
  shows "is_digit_char x \<or> x = CHR ''-''"
proof -
  obtain y m d where ymd: "ymd = (y, m, d)" by (cases ymd)
  have z: "is_digit_char CHR ''0''" by (simp add: is_digit_char_def)
  from assms show ?thesis
    unfolding ymd strftime_ymd_def
    by (auto dest!: zfill_chars simp: z str_nat_chars)
qed

lemma strftime_dash: "CHR ''-'' \<in> set (strftime_ymd ymd)"
  by (cases ymd) (simp add: strftime_ymd_def)

lemma dash_not_special:
  "\<not> is_digit_char CHR ''-''" "\<not> is_space_char CHR ''-''" "lower_char CHR ''-'' = CHR ''-''"
  by (simp_all add: is_digit_char_def is_space_char_def lower_char_def)

text \<open>A formatted date passes the later passes, and the date formatter's numeric test, unchanged.\<close>

lemma date_string_plain:
  assumes "d = strftime_ymd ymd"
  shows "trim_nan d = d" "fix_sci d = d" "d \<noteq> []" "lower d \<noteq> ''nan''" "strip d = d"
    "\<not> numeric_looking d" "\<not> isdigit d"
proof -
  note ch = strftime_chars [of _ ymd, folded assms]
  have dash: "CHR ''-'' \<in> set d" unfolding assms by (rule strftime_dash)
  have np: "CHR ''.'' \<notin> set d" using ch [of "CHR ''.''"] by (auto simp: is_digit_char_def)
  have nplus: "CHR ''+'' \<notin> set d" using ch [of "CHR ''+''"] by (auto simp: is_digit_char_def)
  have nn: "d \<noteq> ''nan''" using dash by auto
  show "trim_nan d = d" using np nn by (rule trim_nan_no_point)
  show "fix_sci d = d" using nplus by (rule fix_sci_no_plus)
  show "d \<noteq> []" using dash by auto
  show "lower d \<noteq> ''nan''"
  proof
    assume "lower d = ''nan''"
    moreover from dash have "lower_char CHR ''-'' \<in> set (lower d)" by (simp add: lower_def)
    ultimately show False by (simp add: dash_not_special)
  qed
  show "strip d = d" unfolding strip_def
    by (rule strip_by_none) (use ch digit_not_special(5) dash_not_special(2) in blast)
  show nl: "\<not> numeric_looking d"
  proof
    assume "numeric_looking d"
    from numeric_chars [OF this dash] show False by (simp add: dash_not_special)
  qed
  show "\<not> isdigit d" using nl isdigit_numeric by blast
qed

lemma excel_serial_date_string:
  assumes "excel_serial_date f = Some d"
  shows "\<exists>ymd. d = strftime_ymd ymd"
proof -
  from assms obtain us where
    "d = strftime_ymd (ord2ymd (nat (excel_epoch_ordinal + us div us_per_day)))"
    by (auto simp: excel_serial_date_def Let_def split: option.splits if_splits)
  then show ?thesis by (rule exI)
qed

lemma serial_string_date_string:
  assumes "serial_string_date s = Some d"
  shows "\<exists>ymd. d = strftime_ymd ymd"
proof -
  from assms obtain f where "excel_serial_date f = Some d"
    by (auto simp: serial_string_date_def split: option.splits if_splits)
  then show ?thesis by (rule excel_serial_date_string)
qed

lemma serial_string_date_iff:
  "serial_string_date s = Some d \<longleftrightarrow>
     numeric_looking s \<and> (\<exists>f. py_float s = Some f \<and> float_gt f 10000 \<and> excel_serial_date f = Some d)"
  by (auto simp: serial_string_date_def split: option.splits if_splits)

subsection \<open>Numeric strings in the normalizer\<close>

lemma format_excel_date_numeric:
  assumes "numeric_looking s"
  shows "format_excel_date to_datetime (Text s) =
           (case serial_string_date s of
              Some d \<Rightarrow> d
            | None \<Rightarrow> if isdigit s then s
                       else (case to_datetime s of Some d \<Rightarrow> d | None \<Rightarrow> s))"
  using numeric_nonempty [OF assms] numeric_plain(2,5) [OF assms] numeric_not_word(3) [OF assms]
  by (simp add: format_excel_date_def split: option.splits)

lemma numeric_passes:
  assumes "numeric_looking s"
  shows "fix_sci (trim_nan s) = trim_nan s"
    "trim_nan s = (if endswith s ''.0'' then take (length s - 2) s else s)"
proof -
  have "CHR ''+'' \<notin> set (trim_nan s)"
    using trim_nan_set [of s] numeric_plain(6) [OF assms] by blast
  then show "fix_sci (trim_nan s) = trim_nan s" by (rule fix_sci_no_plus)
  show "trim_nan s = (if endswith s ''.0'' then take (length s - 2) s else s)"
    using numeric_not_word(3) [OF assms] by (simp add: trim_nan_def)
qed

lemma digits_passes:
  assumes "isdigit s"
  shows "fix_sci (trim_nan s) = s"
proof -
  note n = isdigit_numeric [OF assms]
  have "trim_nan s = s"
    using isdigit_no_point [OF assms] numeric_not_word(3) [OF n] by (rule trim_nan_no_point)
  with numeric_passes(1) [OF n] show ?thesis by simp
qed


lemma normalize_numeric_date_column:
  assumes "numeric_looking s" and dc: "is_date_column col"
  shows "normalize_cell to_datetime col (Text s) =
          (case serial_string_date s of
             Some d \<Rightarrow> d
           | None \<Rightarrow> if isdigit s then s
                      else (case to_datetime s of
                              Some d \<Rightarrow> fix_sci (trim_nan d)
                            | None \<Rightarrow> trim_nan s))"
proof (cases "serial_string_date s")
  case (Some d)
  then obtain ymd where "d = strftime_ymd ymd" using serial_string_date_string by blast
  note p = date_string_plain(1,2) [OF this]
  from Some dc p show ?thesis
    by (simp add: normalize_cell_def astype_str_def format_excel_date_numeric [OF assms(1)])
next
  case None
  show ?thesis
  proof (cases "isdigit s")
    case True
    with None dc show ?thesis
      by (simp add: normalize_cell_def astype_str_def format_excel_date_numeric [OF assms(1)]
            digits_passes)
  next
    case False
    with None dc show ?thesis
      by (simp add: normalize_cell_def astype_str_def format_excel_date_numeric [OF assms(1)]
            numeric_passes(1) [OF assms(1)] split: option.splits)
  qed
qed

text \<open>
  C5, as the code has it.  For a numeric-looking cell (digits with at most one point): in a
  column with a date keyword the cell is rendered as a date exactly when its float value is
  above 10000 and the day that many days after 1899-12-30 exists in the calendar of
  \<open>datetime\<close>, which ends with 9999-12-31; for a string of digits this is the range
  10001 to 2958465, and the date is the one with day number 693594 plus the value.
  Otherwise a string of digits is left as it is, and a string with a point goes to the
  general date parser and, when that reads no date, is left with a final \<open>.0\<close> trimmed.  In
  a column without a date keyword only a final \<open>.0\<close> is trimmed.
\<close>

theorem serial_dates_in_date_columns:
  assumes "numeric_looking s"
  shows "(is_date_column col \<longrightarrow>
            normalize_cell to_datetime col (Text s) =
              (case serial_string_date s of
                 Some d \<Rightarrow> d
               | None \<Rightarrow> if isdigit s then s
                          else (case to_datetime s of
                                  Some d \<Rightarrow> fix_sci (trim_nan d)
                                | None \<Rightarrow> trim_nan s)))
       \<and> (serial_string_date s = Some d \<longleftrightarrow>
            (\<exists>f. py_float s = Some f \<and> float_gt f 10000 \<and> excel_serial_date f = Some d))
       \<and> (isdigit s \<longrightarrow>
            serial_string_date s =
              (if 10000 < nat_of_digits s \<and> nat_of_digits s \<le> 2958465
               then Some (strftime_ymd (ord2ymd (693594 + nat_of_digits s))) else None))
       \<and> (\<not> is_date_column col \<longrightarrow>
            normalize_cell to_datetime col (Text s) =
              (if endswith s ''.0'' then take (length s - 2) s else s))"
proof (intro conjI impI)
  assume "is_date_column col"
  with assms show "normalize_cell to_datetime col (Text s) =
          (case serial_string_date s of
             Some d \<Rightarrow> d
           | None \<Rightarrow> if isdigit s then s
                      else (case to_datetime s of
                              Some d \<Rightarrow> fix_sci (trim_nan d)
                            | None \<Rightarrow> trim_nan s))"
    by (rule normalize_numeric_date_column)
next
  show "serial_string_date s = Some d \<longleftrightarrow>
          (\<exists>f. py_float s = Some f \<and> float_gt f 10000 \<and> excel_serial_date f = Some d)"
    using assms by (simp add: serial_string_date_iff)
next
  assume "isdigit s"
  then show "serial_string_date s =
          (if 10000 < nat_of_digits s \<and> nat_of_digits s \<le> 2958465
           then Some (strftime_ymd (ord2ymd (693594 + nat_of_digits s))) else None)"
    by (rule serial_string_date_digits)
next
  assume "\<not> is_date_column col"
  then show "normalize_cell to_datetime col (Text s) =
          (if endswith s ''.0'' then take (length s - 2) s else s)"
    using numeric_passes [OF assms] by (simp add: normalize_cell_def astype_str_def)
qed

lemma serial_45932_0: "serial_string_date ''45932.0'' = Some ''2025-10-02''"
  by (simp add: serial_string_date_def numeric_looking_def eval_float eval_date)

theorem serial_dates_in_date_columns_witness:
  "normalize_cell no_dates col_date (Text ''45932.0'') = ''2025-10-02''
   \<and> normalize_cell no_dates ''remark'' (Text ''45932.0'') = ''45932''
   \<and> normalize_cell no_dates col_date (Text ''45901'') = ''2025-09-01''
   \<and> normalize_cell no_dates col_date (Text ''10000'') = ''10000''
   \<and> normalize_cell no_dates col_date (Text ''20250901'') = ''20250901''"
proof -
  have n: "numeric_looking ''45932.0''" "numeric_looking ''45901''" "numeric_looking ''10000''"
    "numeric_looking ''20250901''"
    by (simp_all add: numeric_looking_def isdigit_def is_digit_char_def)
  have d: "isdigit ''45901''" "isdigit ''10000''" "isdigit ''20250901''"
    by (simp_all add: isdigit_def is_digit_char_def)
  have v: "nat_of_digits ''45901'' = 45901" "nat_of_digits ''10000'' = 10000"
    "nat_of_digits ''20250901'' = 20250901"
    by (simp_all add: nat_of_digits_def digit_val_def)
  have ymd: "strftime_ymd (ord2ymd (693594 + 45901)) = ''2025-09-01''"
    by (simp add: eval_date)
  note t = serial_dates_in_date_columns
  from t [OF n(1), of col_date no_dates] is_date_column_samples serial_45932_0
  have 1: "normalize_cell no_dates col_date (Text ''45932.0'') = ''2025-10-02''" by simp
  from t [OF n(1), of "''remark''" no_dates] is_date_column_samples
  have 2: "normalize_cell no_dates ''remark'' (Text ''45932.0'') = ''45932''"
    by (simp add: endswith_def)
  from t [OF n(2), of col_date no_dates] is_date_column_samples d v ymd
  have 3: "normalize_cell no_dates col_date (Text ''45901'') = ''2025-09-01''" by simp
  from t [OF n(3), of col_date no_dates] is_date_column_samples d v
  have 4: "normalize_cell no_dates col_date (Text ''10000'') = ''10000''" by simp
  from t [OF n(4), of col_date no_dates] is_date_column_samples d v
  have 5: "normalize_cell no_dates col_date (Text ''20250901'') = ''20250901''" by simp
  from 1 2 3 4 5 show ?thesis by simp
qed

text \<open>
  C5 as stated fails twice: \<open>45932.0\<close> in a date column is not rendered as 2025-09-01 (day
  45932 after 1899-12-30 is 2025-10-02), and \<open>20250901\<close>, which is above 10000, is not
  rendered as a date at all.
\<close>

theorem serial_date_counterexample:
  "is_date_column col_date
   \<and> normalize_cell no_dates col_date (Text ''45932.0'') \<noteq> ''2025-09-01''
   \<and> normalize_cell no_dates col_date (Text ''20250901'') = ''20250901''"
proof -
  have a: "format_excel_date no_dates (Text ''45932.0'') = ''2025-10-02''"
    by (simp add: format_excel_date_def strip_def strip_by_def is_space_char_def serial_45932_0
          lower_def lower_char_def)
  have b: "normalize_cell no_dates col_date (Text ''45932.0'') = ''2025-10-02''"
    by (simp add: normalize_cell_def is_date_column_samples a astype_str_def trim_nan_def
          endswith_def fix_sci_def lower_def lower_char_def)
  have d: "isdigit ''20250901''" by (simp add: isdigit_def is_digit_char_def)
  have "serial_string_date ''20250901'' = None"
    by (simp add: serial_string_date_digits [OF d] nat_of_digits_def digit_val_def)
  then have "format_excel_date no_dates (Text ''20250901'') = ''20250901''"
    using d by (simp add: format_excel_date_numeric [OF isdigit_numeric [OF d]])
  then have c: "normalize_cell no_dates col_date (Text ''20250901'') = ''20250901''"
    by (simp add: normalize_cell_def is_date_column_samples astype_str_def digits_passes [OF d])
  from b c show ?thesis by (simp add: is_date_column_samples)
qed

subsection \<open>Normalizing twice\<close>

lemma fix_sci_cases:
  "fix_sci x = x \<or> (\<exists>i. fix_sci x = str_int i)"
  by (auto simp: fix_sci_def split: option.splits)

lemma fix_sci_idem: "fix_sci (fix_sci x) = fix_sci x"
  using fix_sci_cases [of x] by (auto simp: fix_sci_no_plus str_int_no_plus)

lemma fix_sci_not_longer_with_point:
  assumes "CHR ''.'' \<in> set r" "length t < length r"
  shows "fix_sci t \<noteq> r"
proof
  assume eq: "fix_sci t = r"
  from fix_sci_cases [of t] show False
  proof
    assume "fix_sci t = t"
    with eq assms(2) show False by simp
  next
    assume "\<exists>i. fix_sci t = str_int i"
    then obtain i where "fix_sci t = str_int i" by blast
    with eq assms(1) show False using str_int_no_point [of i] by simp
  qed
qed

lemma normalize_plain_twice:
  assumes "\<not> is_date_column col"
  shows "normalize_cell to_datetime col (Text (normalize_cell to_datetime col v))
           = normalize_cell to_datetime col v
         \<longleftrightarrow> normalize_cell to_datetime col v \<noteq> ''nan''
             \<and> \<not> endswith (normalize_cell to_datetime col v) ''.0''"
proof -
  define r where "r = normalize_cell to_datetime col v"
  have r: "r = fix_sci (trim_nan (astype_str v))"
    using assms by (simp add: r_def normalize_cell_def)
  have again: "normalize_cell to_datetime col (Text r) = fix_sci (trim_nan r)"
    using assms by (rule normalize_plain_column)
  have "fix_sci (trim_nan r) = r \<longleftrightarrow> r \<noteq> ''nan'' \<and> \<not> endswith r ''.0''"
  proof
    assume fp: "fix_sci (trim_nan r) = r"
    show "r \<noteq> ''nan'' \<and> \<not> endswith r ''.0''"
    proof (intro conjI notI)
      assume "r = ''nan''"
      with fp show False by (simp add: trim_nan_def fix_sci_def lower_def)
    next
      assume e: "endswith r ''.0''"
      then have "CHR ''.'' \<in> set r" by (auto dest: endswith_set)
      moreover from e have len: "2 \<le> length r" by (simp add: endswith_def)
      from e have "r \<noteq> ''nan''" by (auto simp: endswith_def)
      with e have "trim_nan r = take (length r - 2) r" by (simp add: trim_nan_def)
      moreover from len have "length (take (length r - 2) r) < length r" by simp
      ultimately have "fix_sci (trim_nan r) \<noteq> r" by (simp add: fix_sci_not_longer_with_point)
      with fp show False by simp
    qed
  next
    assume "r \<noteq> ''nan'' \<and> \<not> endswith r ''.0''"
    then have "trim_nan r = r" by (simp add: trim_nan_def)
    then show "fix_sci (trim_nan r) = r" by (simp add: r fix_sci_idem)
  qed
  with again show ?thesis unfolding r_def by simp
qed

lemma normalize_date_string:
  assumes "is_date_column col" "d = strftime_ymd ymd" "to_datetime d = None \<or> to_datetime d = Some d"
  shows "normalize_cell to_datetime col (Text d) = d"
proof -
  note p = date_string_plain [OF assms(2)]
  have "serial_string_date d = None" using p(6) by (simp add: serial_string_date_def)
  with p(3,4,5,7) assms(3) have "format_excel_date to_datetime (Text d) = d"
    by (auto simp: format_excel_date_def)
  with assms(1) p(1,2) show ?thesis by (simp add: normalize_date_column)
qed

text \<open>
  C8, as the code has it.  In a column without a date keyword, normalizing a second time
  changes nothing exactly when the normalized value is not \<open>nan\<close> and does not end in
  \<open>.0\<close>.  In a column with a date keyword, a numeric string that is rendered as a date
  normalizes to that date again, provided the general date parser reads the date as
  itself or not at all.
\<close>

theorem normalize_twice:
  "(\<not> is_date_column col \<longrightarrow>
      (normalize_cell to_datetime col (Text (normalize_cell to_datetime col v))
         = normalize_cell to_datetime col v
       \<longleftrightarrow> normalize_cell to_datetime col v \<noteq> ''nan''
           \<and> \<not> endswith (normalize_cell to_datetime col v) ''.0''))
   \<and> (is_date_column col \<and> numeric_looking s \<and> serial_string_date s = Some d
        \<and> (to_datetime d = None \<or> to_datetime d = Some d)
        \<longrightarrow> normalize_cell to_datetime col (Text s) = d
            \<and> normalize_cell to_datetime col (Text d) = d)"
proof (intro conjI impI)
  assume "\<not> is_date_column col"
  then show "normalize_cell to_datetime col (Text (normalize_cell to_datetime col v))
         = normalize_cell to_datetime col v
       \<longleftrightarrow> normalize_cell to_datetime col v \<noteq> ''nan''
           \<and> \<not> endswith (normalize_cell to_datetime col v) ''.0''"
    by (rule normalize_plain_twice)
next
  assume a: "is_date_column col \<and> numeric_looking s \<and> serial_string_date s = Some d
        \<and> (to_datetime d = None \<or> to_datetime d = Some d)"
  then show "normalize_cell to_datetime col (Text s) = d"
    by (simp add: normalize_numeric_date_column)
  from a obtain ymd where "d = strftime_ymd ymd" using serial_string_date_string by blast
  with a show "normalize_cell to_datetime col (Text d) = d"
    by (simp add: normalize_date_string)
qed

theorem normalize_twice_witness:
  "normalize_cell no_dates ''remark'' (Text (normalize_cell no_dates ''remark'' (Text ''1.23e+10'')))
     = normalize_cell no_dates ''remark'' (Text ''1.23e+10'')
   \<and> normalize_cell no_dates col_date (Text ''45932.0'') = ''2025-10-02''
   \<and> normalize_cell no_dates col_date (Text ''2025-10-02'') = ''2025-10-02''"
proof -
  have fl: "py_float ''1.23e+10'' = Some (Fin 12300000000)" by (simp add: eval_float)
  have s: "str_int 12300000000 = ''12300000000''"
    by (simp add: str_int_def str_nat.simps digit_char_def)
  have "fix_sci ''1.23e+10'' = ''12300000000''"
    by (simp add: fix_sci_def fl int_of_float_def trunc_rat_def s) (simp add: lower_def lower_char_def)
  then have r: "normalize_cell no_dates ''remark'' (Text ''1.23e+10'') = ''12300000000''"
    by (simp add: normalize_plain_column is_date_column_samples trim_nan_def endswith_def)
  have n: "numeric_looking ''45932.0''"
    by (simp add: numeric_looking_def isdigit_def is_digit_char_def)
  from normalize_twice [of "''remark''" no_dates "Text ''1.23e+10''"] is_date_column_samples
  have 1: "normalize_cell no_dates ''remark'' (Text (normalize_cell no_dates ''remark'' (Text ''1.23e+10'')))
     = normalize_cell no_dates ''remark'' (Text ''1.23e+10'')"
    by (simp add: r endswith_def)
  from normalize_twice [of col_date no_dates Missing "''45932.0''" "''2025-10-02''"]
    is_date_column_samples n serial_45932_0
  have 2: "normalize_cell no_dates col_date (Text ''45932.0'') = ''2025-10-02''
     \<and> normalize_cell no_dates col_date (Text ''2025-10-02'') = ''2025-10-02''"
    by (simp add: no_dates_def)
  from 1 2 show ?thesis by simp
qed

text \<open>
  C8 as stated fails: in a column without a date keyword \<open>1.0.0\<close> normalizes to \<open>1.0\<close>,
  and \<open>1.0\<close> normalizes to \<open>1\<close>.
\<close>

theorem normalize_twice_counterexample:
  "\<not> is_date_column ''remark''
   \<and> normalize_cell no_dates ''remark'' (Text ''1.0.0'') = ''1.0''
   \<and> normalize_cell no_dates ''remark'' (Text (normalize_cell no_dates ''remark'' (Text ''1.0.0''))) = ''1''"
proof -
  have a: "normalize_cell no_dates ''remark'' (Text ''1.0.0'') = ''1.0''"
    by (simp add: normalize_plain_column is_date_column_samples trim_nan_def endswith_def
          fix_sci_def lower_def lower_char_def)
  have b: "normalize_cell no_dates ''remark'' (Text ''1.0'') = ''1''"
    by (simp add: normalize_plain_column is_date_column_samples trim_nan_def endswith_def
          fix_sci_def lower_def lower_char_def)
  from a b show ?thesis by (simp add: is_date_column_samples)
qed

end
